theory Spec2Isabelle
  imports Complex_Main "HOL-Library.Word" "HOL-Library.Sublist"
begin

section \<open>Data model of elastic.go\<close>

text \<open>
  The program keeps four Elasticsearch indices (block, tx, vout, balance) and updates
  them from Bitcoin blocks. The store is modelled as a record of four document lists;
  every call that the source finishes with \<open>.Do(ctx)\<close> is a function on that record
  which also appends the request to a log of the requests sent to the store.

  Amounts are \<open>float64\<close> in the source and every sum and difference is taken on
  \<open>decimal.Decimal\<close> values made from them. They are modelled as rationals: the
  arithmetic is the decimal one, and the conversion of a decimal result back to
  \<open>float64\<close> is taken to be exact (it is for Bitcoin amounts, multiples of \<open>10\<^sup>-\<^sup>8\<close>
  below 21 million). The fee, passed on as \<open>fee.String()\<close>, is the decimal itself.
\<close>

type_synonym uint32 = "32 word"
type_synonym int32 = "32 word"
type_synonym amount = rat
type_synonym doc_id = nat

text \<open>The fields of btcjson's \<open>Vin\<close>, \<open>Vout\<close>, \<open>TxRawResult\<close> and
  \<open>GetBlockVerboseResult\<close> that elastic.go reads.\<close>

record Vin =
  vin_Coinbase :: string
  vin_Txid :: string
  vin_Vout :: uint32

record Vout =
  vout_Value :: amount
  vout_N :: uint32
  vout_Addresses :: "string list"

record TxRawResult =
  tx_Txid :: string
  tx_Vin :: "Vin list"
  tx_Vout :: "Vout list"
  tx_Time :: int

record GetBlockVerboseResult =
  blk_Hash :: string
  blk_Tx :: "TxRawResult list"

text \<open>
  Modelled from the spec: \<open>voutUsed\<close>, \<open>VoutStream\<close>, \<open>BTCBalance\<close>,
  \<open>AddressWithValueInTx\<close> and the document of the tx index are declared outside
  elastic.go. Their fields are those of the spec's UnspentOutput, AddressBalance and
  IndexedTransaction, under the names that the code and the index mappings of elastic.go
  (\<open>voutMapping\<close>, \<open>balanceMapping\<close>, \<open>txMapping\<close>) use. The creation time of a vout
  document is left out: no function of elastic.go reads it and \<open>BTCVoutStream\<close> is not
  given a time.
\<close>

record voutUsed =
  used_Txid :: string
  used_VinIndex :: uint32

record VoutStream =
  TxIDBelongTo :: string
  Value :: amount
  Voutindex :: uint32
  Coinbase :: bool
  Addresses :: "string list"
  Used :: "voutUsed option"

record BTCBalance =
  Address :: string
  Amount :: amount

record AddressWithValueInTx =
  awv_Address :: string
  awv_Value :: amount

record TxStream =
  ts_Txid :: string
  ts_BlockHash :: string
  ts_Fee :: amount
  ts_Time :: int
  ts_Vins :: "AddressWithValueInTx list"
  ts_Vouts :: "AddressWithValueInTx list"

datatype error =
    StoreError
  | VoutNotFound
  | BlockNotFound
  | DeleteTxstreamFail
  | OperateTypeError
  | NoAddress

subsection \<open>The store\<close>

text \<open>
  The kinds of request the program sends. A store in which a kind is listed in
  \<open>failing\<close> answers every request of that kind with an error and leaves its documents
  as they are.
\<close>

datatype es_call =
    SearchVout | SearchBalance | GetBlock | DeleteByQueryTx
  | UpdateVout | UpdateBalance | IndexVout | IndexBalance | IndexTx | DeleteVout

datatype request =
    ReqSearchVoutByIndex string uint32
  | ReqSearchVoutByUsed string string uint32
  | ReqSearchBalance string
  | ReqGetBlock int32
  | ReqDeleteTxByHash string
  | ReqUpdateVoutUsed doc_id "voutUsed option"
  | ReqUpdateBalance doc_id amount
  | ReqIndexVout VoutStream
  | ReqIndexBalance "BTCBalance option"
  | ReqIndexTx TxStream
  | ReqDeleteVout doc_id
  | ReqFlush "string list"

text \<open>
  Documents are kept with their ids in the order they were indexed; a search returns its
  hits in that order. A document indexed without an id (\<open>client.Index()\<close> with no
  \<open>.Id\<close>) gets a fresh id from the store, drawn here from the counter \<open>next_id\<close>.
  The block index is written by another part of the program, with the height as id.
  \<open>chan\<close> holds the values sent on the notification channel.

  An update with \<open>DocAsUpsert\<close> of an id that the index does not hold creates a document
  with the updated field alone: \<open>used\<close> in the vout index, \<open>amount\<close> in the balance index.
  Such a document has none of the fields the term queries of this program match on, so
  no search returns it; it is kept apart, in \<open>vout_partial\<close> and \<open>balance_partial\<close>.

  Amounts are float64 in the program and exact decimals only inside
  \<open>UpdateBTCBlance\<close>, \<open>BTCSyncTx\<close> and the fee. An amount is written here as the
  decimal that \<open>decimal.NewFromFloat\<close> reads from the float64. \<open>float64\<close> is what
  \<open>Float64()\<close> makes of a decimal: the amount of the nearest float64. It is a parameter
  of the model, the same throughout a run.
\<close>

record world =
  block_idx :: "(int32 \<times> GetBlockVerboseResult) list"
  tx_idx :: "(doc_id \<times> TxStream) list"
  vout_idx :: "(doc_id \<times> VoutStream) list"
  balance_idx :: "(doc_id \<times> BTCBalance) list"
  vout_partial :: "(doc_id \<times> voutUsed option) list"
  balance_partial :: "(doc_id \<times> amount) list"
  next_id :: doc_id
  failing :: "es_call set"
  requests :: "request list"
  chan :: "bool list"
  float64 :: "amount \<Rightarrow> amount"

definition send_request :: "request \<Rightarrow> world \<Rightarrow> world" where
  "send_request r w = w\<lparr>requests := requests w @ [r]\<rparr>"

text \<open>\<open>Update().Id(id).Doc(fields).DocAsUpsert(true).DetectNoop(true)\<close>: the fields are
  merged into the document \<open>id\<close>; when the index holds no such document, one with the
  given fields alone is created.\<close>

fun has_id :: "doc_id \<Rightarrow> (doc_id \<times> 'd) list \<Rightarrow> bool" where
  "has_id i [] = False"
| "has_id i ((j, d) # ds) = (j = i \<or> has_id i ds)"

fun update_doc :: "doc_id \<Rightarrow> ('d \<Rightarrow> 'd) \<Rightarrow> (doc_id \<times> 'd) list \<Rightarrow> (doc_id \<times> 'd) list" where
  "update_doc i f [] = []"
| "update_doc i f ((j, d) # ds) =
     (if j = i then (j, f d) # ds else (j, d) # update_doc i f ds)"

definition upsert_partial :: "doc_id \<Rightarrow> 'p \<Rightarrow> (doc_id \<times> 'p) list \<Rightarrow> (doc_id \<times> 'p) list" where
  "upsert_partial i p ps =
     (if has_id i ps then update_doc i (\<lambda>q. p) ps else ps @ [(i, p)])"

definition delete_doc :: "doc_id \<Rightarrow> (doc_id \<times> 'd) list \<Rightarrow> (doc_id \<times> 'd) list" where
  "delete_doc i ds = filter (\<lambda>(j, d). j \<noteq> i) ds"

definition es_index_vout :: "VoutStream \<Rightarrow> world \<Rightarrow> world" where
  "es_index_vout v w =
     (let w1 = send_request (ReqIndexVout v) w in
      if IndexVout \<in> failing w then w1
      else w1\<lparr>vout_idx := vout_idx w1 @ [(next_id w1, v)], next_id := Suc (next_id w1)\<rparr>)"

text \<open>\<open>BodyJson\<close> of a nil \<open>*BTCBalance\<close> has no document to index.\<close>

definition es_index_balance :: "BTCBalance option \<Rightarrow> world \<Rightarrow> world" where
  "es_index_balance b w =
     (let w1 = send_request (ReqIndexBalance b) w in
      case b of
        None \<Rightarrow> w1
      | Some d \<Rightarrow>
          if IndexBalance \<in> failing w then w1
          else w1\<lparr>balance_idx := balance_idx w1 @ [(next_id w1, d)],
                  next_id := Suc (next_id w1)\<rparr>)"

definition es_index_tx :: "TxStream \<Rightarrow> world \<Rightarrow> world" where
  "es_index_tx t w =
     (let w1 = send_request (ReqIndexTx t) w in
      if IndexTx \<in> failing w then w1
      else w1\<lparr>tx_idx := tx_idx w1 @ [(next_id w1, t)], next_id := Suc (next_id w1)\<rparr>)"

definition es_update_vout_used :: "doc_id \<Rightarrow> voutUsed option \<Rightarrow> world \<Rightarrow> world" where
  "es_update_vout_used i u w =
     (let w1 = send_request (ReqUpdateVoutUsed i u) w in
      if UpdateVout \<in> failing w then w1
      else if has_id i (vout_idx w1)
        then w1\<lparr>vout_idx := update_doc i (\<lambda>d. d\<lparr>Used := u\<rparr>) (vout_idx w1)\<rparr>
        else w1\<lparr>vout_partial := upsert_partial i u (vout_partial w1)\<rparr>)"

definition es_update_balance :: "doc_id \<Rightarrow> amount \<Rightarrow> world \<Rightarrow> error option \<times> world" where
  "es_update_balance i a w =
     (let w1 = send_request (ReqUpdateBalance i a) w in
      if UpdateBalance \<in> failing w then (Some StoreError, w1)
      else if has_id i (balance_idx w1)
        then (None, w1\<lparr>balance_idx := update_doc i (\<lambda>d. d\<lparr>Amount := a\<rparr>) (balance_idx w1)\<rparr>)
        else (None, w1\<lparr>balance_partial := upsert_partial i a (balance_partial w1)\<rparr>))"

definition es_delete_vout :: "doc_id \<Rightarrow> world \<Rightarrow> world" where
  "es_delete_vout i w =
     (let w1 = send_request (ReqDeleteVout i) w in
      if DeleteVout \<in> failing w then w1
      else w1\<lparr>vout_idx := delete_doc i (vout_idx w1),
              vout_partial := delete_doc i (vout_partial w1)\<rparr>)"

text \<open>
  \<open>client.Flush()\<close> of the Elasticsearch client only builds the flush request, as
  \<open>client.Search()\<close>, \<open>client.Update()\<close>, \<open>client.Index()\<close>, \<open>client.Get()\<close> and
  \<open>client.Delete()\<close> build theirs; a request is sent by its \<open>Do\<close>.
\<close>

record IndicesFlushService =
  flush_index :: "string list"

definition Flush :: "string list \<Rightarrow> IndicesFlushService" where
  "Flush indices = \<lparr>flush_index = indices\<rparr>"

definition Flush_Do :: "IndicesFlushService \<Rightarrow> world \<Rightarrow> world" where
  "Flush_Do s w = send_request (ReqFlush (flush_index s)) w"

section \<open>Lookups\<close>

text \<open>
  A lookup sends one search (or get) request and reads the answer: the error of the
  request, "not found" when there is no hit, the first hit otherwise. Term queries are
  modelled as equality on the field.
\<close>

definition FindVoutByVoutIndexAndBelongTxID ::
  "string \<Rightarrow> uint32 \<Rightarrow> world \<Rightarrow> (error + doc_id \<times> VoutStream) \<times> world" where
  "FindVoutByVoutIndexAndBelongTxID txidbelongto voutindex w =
     (if SearchVout \<in> failing w then Inl StoreError
      else case find (\<lambda>(i, v). TxIDBelongTo v = txidbelongto \<and> Voutindex v = voutindex)
                  (vout_idx w) of
             None \<Rightarrow> Inl VoutNotFound
           | Some hit \<Rightarrow> Inr hit,
      send_request (ReqSearchVoutByIndex txidbelongto voutindex) w)"

definition used_matches :: "string \<Rightarrow> uint32 \<Rightarrow> voutUsed option \<Rightarrow> bool" where
  "used_matches txid vinindex u =
     (case u of None \<Rightarrow> False
      | Some x \<Rightarrow> used_Txid x = txid \<and> used_VinIndex x = vinindex)"

definition FindVoutByUsedFieldAndBelongTxID ::
  "Vin \<Rightarrow> string \<Rightarrow> world \<Rightarrow> (error + doc_id \<times> VoutStream) \<times> world" where
  "FindVoutByUsedFieldAndBelongTxID vin txBelongto w =
     (if SearchVout \<in> failing w then Inl StoreError
      else case find (\<lambda>(i, v). TxIDBelongTo v = vin_Txid vin
                        \<and> used_matches txBelongto (vin_Vout vin) (Used v))
                  (vout_idx w) of
             None \<Rightarrow> Inl VoutNotFound
           | Some hit \<Rightarrow> Inr hit,
      send_request (ReqSearchVoutByUsed (vin_Txid vin) txBelongto (vin_Vout vin)) w)"

definition FindBTCBlockByHeight ::
  "int32 \<Rightarrow> world \<Rightarrow> (error + GetBlockVerboseResult) \<times> world" where
  "FindBTCBlockByHeight height w =
     (if GetBlock \<in> failing w then Inl StoreError
      else case map_of (block_idx w) height of
             None \<Rightarrow> Inl BlockNotFound
           | Some b \<Rightarrow> Inr b,
      send_request (ReqGetBlock height) w)"

text \<open>The three results of \<open>FindBalanceWithAddressOrInitWithAmount\<close>:
  \<open>(nil, nil, err)\<close> when the search fails, \<open>(nil, balance, err)\<close> with the freshly built
  balance when there is no hit, \<open>(&id, balance, nil)\<close> for the first hit.\<close>

datatype balance_result =
    BalSearchFailed
  | BalNotFound BTCBalance
  | BalFound doc_id BTCBalance

definition FindBalanceWithAddressOrInitWithAmount ::
  "string \<Rightarrow> amount \<Rightarrow> world \<Rightarrow> balance_result \<times> world" where
  "FindBalanceWithAddressOrInitWithAmount address amount w =
     (if SearchBalance \<in> failing w then BalSearchFailed
      else case find (\<lambda>(i, b). Address b = address) (balance_idx w) of
             None \<Rightarrow> BalNotFound \<lparr>Address = address, Amount = amount\<rparr>
           | Some (i, b) \<Rightarrow> BalFound i b,
      send_request (ReqSearchBalance address) w)"

section \<open>Balance and vout updates\<close>

text \<open>\<open>UpdateBTCBlance\<close> adds or subtracts as decimals and writes the \<open>Float64()\<close> of
  the result. It prints a failure of the update request and returns \<open>nil\<close>; its only
  error is the one for an \<open>operateType\<close> other than "add" and "sub".\<close>

definition UpdateBTCBlance ::
  "string \<Rightarrow> doc_id \<Rightarrow> BTCBalance \<Rightarrow> amount \<Rightarrow> world \<Rightarrow> error option \<times> world" where
  "UpdateBTCBlance operateType i btcbalance amount w =
     (if operateType = ''add''
      then (let balanceToFloat = float64 w (Amount btcbalance + amount)
            in (None, snd (es_update_balance i balanceToFloat w)))
      else if operateType = ''sub''
      then (let balanceToFloat = float64 w (Amount btcbalance - amount)
            in (None, snd (es_update_balance i balanceToFloat w)))
      else (Some OperateTypeError, w))"

definition UpdateVoutUsedField :: "doc_id \<Rightarrow> string \<Rightarrow> Vin \<Rightarrow> world \<Rightarrow> world" where
  "UpdateVoutUsedField i vinBelongTxid vin w =
     es_update_vout_used i (Some \<lparr>used_Txid = vinBelongTxid, used_VinIndex = vin_Vout vin\<rparr>) w"

text \<open>The loop of \<open>UpdateBTCBlanceByVout\<close> over \<open>vout.Addresses\<close>: an address whose
  balance lookup returns an error is passed over.\<close>

fun UpdateBTCBlanceByVout_loop ::
  "string list \<Rightarrow> amount \<Rightarrow> string \<Rightarrow> world \<Rightarrow> error option \<times> world" where
  "UpdateBTCBlanceByVout_loop [] v OperateType w = (None, w)"
| "UpdateBTCBlanceByVout_loop (address # rest) v OperateType w =
     (case FindBalanceWithAddressOrInitWithAmount address v w of
        (BalFound balancdID btcbalance, w1) \<Rightarrow>
          (case UpdateBTCBlance OperateType balancdID btcbalance v w1 of
             (Some err, w2) \<Rightarrow> (Some err, w2)
           | (None, w2) \<Rightarrow> UpdateBTCBlanceByVout_loop rest v OperateType w2)
      | (BalNotFound b, w1) \<Rightarrow> UpdateBTCBlanceByVout_loop rest v OperateType w1
      | (BalSearchFailed, w1) \<Rightarrow> UpdateBTCBlanceByVout_loop rest v OperateType w1)"

definition UpdateBTCBlanceByVout ::
  "VoutStream \<Rightarrow> string \<Rightarrow> world \<Rightarrow> error option \<times> world" where
  "UpdateBTCBlanceByVout vout OperateType w =
     UpdateBTCBlanceByVout_loop (Addresses vout) (Value vout) OperateType w"

section \<open>Rollback\<close>

text \<open>The test \<open>len(tx.Vin) == 1 && len(tx.Vin[0].Coinbase) != 0 && len(tx.Vin[0].Txid) == 0\<close>.\<close>

definition is_coinbase :: "Vin list \<Rightarrow> bool" where
  "is_coinbase vins =
     (case vins of [v] \<Rightarrow> vin_Coinbase v \<noteq> [] \<and> vin_Txid v = [] | _ \<Rightarrow> False)"

definition DeleteTxstreamByBlockHash :: "string \<Rightarrow> world \<Rightarrow> error option \<times> world" where
  "DeleteTxstreamByBlockHash blockHash w =
     (let w1 = send_request (ReqDeleteTxByHash blockHash) w in
      if DeleteByQueryTx \<in> failing w then (Some DeleteTxstreamFail, w1)
      else (None, w1\<lparr>tx_idx := filter (\<lambda>(i, t). ts_BlockHash t \<noteq> blockHash) (tx_idx w1)\<rparr>))"

text \<open>The loops of the rollback over \<open>tx.Vin\<close>, \<open>tx.Vout\<close> and \<open>NewBlock.Tx\<close>. The
  results of the update, delete and balance calls are dropped, as in the source.\<close>

fun rollback_vins :: "TxRawResult \<Rightarrow> Vin list \<Rightarrow> world \<Rightarrow> world" where
  "rollback_vins tx [] w = w"
| "rollback_vins tx (vin # vins) w =
     (if is_coinbase (tx_Vin tx) then rollback_vins tx vins w
      else case FindVoutByUsedFieldAndBelongTxID vin (tx_Txid tx) w of
             (Inl err, w1) \<Rightarrow> rollback_vins tx vins w1
           | (Inr (voutID, DBVout), w1) \<Rightarrow>
               rollback_vins tx vins
                 (snd (UpdateBTCBlanceByVout DBVout ''add'' (es_update_vout_used voutID None w1))))"

fun rollback_vouts :: "TxRawResult \<Rightarrow> Vout list \<Rightarrow> world \<Rightarrow> world" where
  "rollback_vouts tx [] w = w"
| "rollback_vouts tx (vout # vouts) w =
     (case FindVoutByVoutIndexAndBelongTxID (tx_Txid tx) (vout_N vout) w of
        (Inl err, w1) \<Rightarrow> rollback_vouts tx vouts w1
      | (Inr (voutUsedID, DBVout), w1) \<Rightarrow>
          rollback_vouts tx vouts
            (snd (UpdateBTCBlanceByVout DBVout ''sub'' (es_delete_vout voutUsedID w1))))"

fun rollback_txs :: "TxRawResult list \<Rightarrow> world \<Rightarrow> world" where
  "rollback_txs [] w = w"
| "rollback_txs (tx # txs) w =
     rollback_txs txs (rollback_vouts tx (tx_Vout tx) (rollback_vins tx (tx_Vin tx) w))"

definition RollbackTxVoutBalanceTypeByBlockHeight ::
  "int32 \<Rightarrow> world \<Rightarrow> error option \<times> world" where
  "RollbackTxVoutBalanceTypeByBlockHeight height w =
     (case FindBTCBlockByHeight height w of
        (Inl err, w1) \<Rightarrow> (Some err, w1)
      | (Inr NewBlock, w1) \<Rightarrow>
          (case DeleteTxstreamByBlockHash (blk_Hash NewBlock) w1 of
             (Some err, w2) \<Rightarrow> (Some err, w2)
           | (None, w2) \<Rightarrow> (None, rollback_txs (blk_Tx NewBlock) w2)))"

section \<open>Sync\<close>

text \<open>
  Modelled from the spec: \<open>BTCVoutAddress\<close> is declared outside elastic.go. It derives
  the payee addresses of an output from its script: an output whose script yields no
  address is an error (the output is passed over), any other output has the addresses of
  its script, the first being the primary payee. \<open>BTCSyncTx\<close> credits each of them.
\<close>

definition BTCVoutAddress :: "Vout \<Rightarrow> error + string list" where
  "BTCVoutAddress vout =
     (if vout_Addresses vout = [] then Inl NoAddress else Inr (vout_Addresses vout))"

text \<open>
  Modelled from the spec: \<open>BTCVoutStream\<close> is declared outside elastic.go. It builds the
  UnspentOutput of an output: the id of its transaction, its index, value and addresses,
  whether the transaction is coinbase, and no spender.
\<close>

definition BTCVoutStream :: "Vout \<Rightarrow> Vin list \<Rightarrow> string \<Rightarrow> VoutStream" where
  "BTCVoutStream vout vins txid =
     \<lparr>TxIDBelongTo = txid, Value = vout_Value vout, Voutindex = vout_N vout,
      Coinbase = is_coinbase vins, Addresses = vout_Addresses vout, Used = None\<rparr>"

text \<open>
  Modelled from the spec: \<open>BTCTxStream\<close> is declared outside elastic.go. It builds the
  IndexedTransaction from the six values \<open>BTCSyncTx\<close> passes.
\<close>

definition BTCTxStream ::
  "string \<Rightarrow> string \<Rightarrow> amount \<Rightarrow> int \<Rightarrow> AddressWithValueInTx list
     \<Rightarrow> AddressWithValueInTx list \<Rightarrow> TxStream" where
  "BTCTxStream txid blockHash fee time vins vouts =
     \<lparr>ts_Txid = txid, ts_BlockHash = blockHash, ts_Fee = fee, ts_Time = time,
      ts_Vins = vins, ts_Vouts = vouts\<rparr>"

text \<open>
  How a run of \<open>BTCSyncTx\<close> ends: it returns, or \<open>log.Fatal\<close> exits the process, or an
  index expression (\<open>voutAsVin.Addresses[0]\<close>, \<open>addresses[0]\<close>) panics on an empty
  slice. The store is left as it was at that moment.
\<close>

datatype 'a outcome = Done 'a world | Fatal world | Panic world

fun world_of :: "'a outcome \<Rightarrow> world" where
  "world_of (Done x w) = w"
| "world_of (Fatal w) = w"
| "world_of (Panic w) = w"

text \<open>
  The loops of \<open>BTCSyncTx\<close>: \<open>sync_vins\<close> is the loop over \<open>tx.Vin\<close> and
  \<open>sync_vouts\<close> the one over \<open>tx.Vout\<close>, each carrying its running total and its list
  for the transaction document; \<open>sync_tx\<close> is the body of the loop over \<open>block.Tx\<close> and
  \<open>sync_txs\<close> that loop.
\<close>

type_synonym tx_acc = "amount \<times> AddressWithValueInTx list"

fun sync_vins :: "TxRawResult \<Rightarrow> Vin list \<Rightarrow> tx_acc \<Rightarrow> world \<Rightarrow> tx_acc outcome" where
  "sync_vins tx [] acc w = Done acc w"
| "sync_vins tx (vin # vins) (vinAmount, txStreamVins) w =
     (case FindVoutByVoutIndexAndBelongTxID (vin_Txid vin) (vin_Vout vin) w of
        (Inl err, w1) \<Rightarrow> sync_vins tx vins (vinAmount, txStreamVins) w1
      | (Inr (voutUsedID, voutAsVin), w1) \<Rightarrow>
          (case Addresses voutAsVin of
             [] \<Rightarrow> Panic w1
           | a # as \<Rightarrow>
               (case UpdateBTCBlanceByVout voutAsVin ''sub''
                       (UpdateVoutUsedField voutUsedID (tx_Txid tx) vin w1) of
                  (Some err, w3) \<Rightarrow> Fatal w3
                | (None, w3) \<Rightarrow>
                    sync_vins tx vins
                      (vinAmount + Value voutAsVin,
                       txStreamVins @ [\<lparr>awv_Address = a, awv_Value = Value voutAsVin\<rparr>])
                      w3)))"

text \<open>The loop over the addresses of one output: a balance that is found is credited,
  one that is not is indexed as a new document.\<close>

fun sync_credit :: "string list \<Rightarrow> amount \<Rightarrow> world \<Rightarrow> unit outcome" where
  "sync_credit [] v w = Done () w"
| "sync_credit (address # rest) v w =
     (case FindBalanceWithAddressOrInitWithAmount address v w of
        (BalFound balancdID btcbalance, w1) \<Rightarrow>
          (case UpdateBTCBlance ''add'' balancdID btcbalance v w1 of
             (Some err, w2) \<Rightarrow> Fatal w2
           | (None, w2) \<Rightarrow> sync_credit rest v w2)
      | (BalNotFound b, w1) \<Rightarrow> sync_credit rest v (es_index_balance (Some b) w1)
      | (BalSearchFailed, w1) \<Rightarrow> sync_credit rest v (es_index_balance None w1))"

fun sync_vouts :: "TxRawResult \<Rightarrow> Vout list \<Rightarrow> tx_acc \<Rightarrow> world \<Rightarrow> tx_acc outcome" where
  "sync_vouts tx [] acc w = Done acc w"
| "sync_vouts tx (vout # vouts) (voutAmount, txStreamVouts) w =
     (case BTCVoutAddress vout of
        Inl err \<Rightarrow> sync_vouts tx vouts (voutAmount, txStreamVouts) w
      | Inr addresses \<Rightarrow>
          (case addresses of
             [] \<Rightarrow> Panic w
           | a # as \<Rightarrow>
               (case sync_credit addresses (vout_Value vout)
                       (es_index_vout (BTCVoutStream vout (tx_Vin tx) (tx_Txid tx)) w) of
                  Done u w2 \<Rightarrow>
                    sync_vouts tx vouts
                      (voutAmount + vout_Value vout,
                       txStreamVouts @ [\<lparr>awv_Address = a, awv_Value = vout_Value vout\<rparr>])
                      w2
                | Fatal w2 \<Rightarrow> Fatal w2
                | Panic w2 \<Rightarrow> Panic w2)))"

definition sync_tx :: "string \<Rightarrow> TxRawResult \<Rightarrow> world \<Rightarrow> unit outcome" where
  "sync_tx blockHash tx w =
     (case sync_vins tx (tx_Vin tx) (0, []) w of
        Fatal w1 \<Rightarrow> Fatal w1
      | Panic w1 \<Rightarrow> Panic w1
      | Done (vinAmount, txStreamVins) w1 \<Rightarrow>
          (case sync_vouts tx (tx_Vout tx) (0, []) w1 of
             Fatal w2 \<Rightarrow> Fatal w2
           | Panic w2 \<Rightarrow> Panic w2
           | Done (voutAmount, txStreamVouts) w2 \<Rightarrow>
               Done ()
                 (es_index_tx
                    (BTCTxStream (tx_Txid tx) blockHash
                       (if is_coinbase (tx_Vin tx) then 0 else vinAmount - voutAmount)
                       (tx_Time tx) txStreamVins txStreamVouts)
                    w2)))"

fun sync_txs :: "string \<Rightarrow> TxRawResult list \<Rightarrow> world \<Rightarrow> unit outcome" where
  "sync_txs blockHash [] w = Done () w"
| "sync_txs blockHash (tx # txs) w =
     (case sync_tx blockHash tx w of
        Done u w1 \<Rightarrow> sync_txs blockHash txs w1
      | Fatal w1 \<Rightarrow> Fatal w1
      | Panic w1 \<Rightarrow> Panic w1)"

definition BTCSyncTx :: "int32 \<Rightarrow> int32 \<Rightarrow> GetBlockVerboseResult \<Rightarrow> world \<Rightarrow> unit outcome" where
  "BTCSyncTx from height block w = sync_txs (blk_Hash block) (blk_Tx block) w"

section \<open>The unit of work of the driver\<close>

text \<open>\<open>from + 5\<close> is an \<open>int32\<close> sum and wraps; \<open><s\<close> compares the signed values.
  The flush request built by \<open>client.Flush()\<close> is dropped: the source does not call
  its \<open>Do\<close>. \<open>ch <- true\<close> appends to the channel.\<close>

definition BTCRollBackAndSyncTx ::
  "int32 \<Rightarrow> int32 \<Rightarrow> GetBlockVerboseResult \<Rightarrow> world \<Rightarrow> unit outcome" where
  "BTCRollBackAndSyncTx from height block w =
     (let w1 = (if height <s from + 5
                then snd (RollbackTxVoutBalanceTypeByBlockHeight height w) else w)
      in case BTCSyncTx from height block w1 of
           Done u w2 \<Rightarrow>
             (let flushService = Flush [] in Done () (w2\<lparr>chan := chan w2 @ [True]\<rparr>))
         | Fatal w2 \<Rightarrow> Fatal w2
         | Panic w2 \<Rightarrow> Panic w2)"

section \<open>Example inputs\<close>

text \<open>The amounts of the examples are small multiples of 1/2, which float64 holds
  exactly. The stores of the examples keep every amount except \<open>2^53 + 1\<close>, the least
  positive integer that is no float64; they round it to \<open>2^53\<close>, as \<open>Float64()\<close> does.\<close>

definition example_float64 :: "amount \<Rightarrow> amount" where
  "example_float64 x = (if x = 2 ^ 53 + 1 then 2 ^ 53 else x)"

definition empty_store :: world where
  "empty_store = \<lparr>block_idx = [], tx_idx = [], vout_idx = [], balance_idx = [],
     vout_partial = [], balance_partial = [], next_id = 0,
     failing = {}, requests = [], chan = [], float64 = example_float64\<rparr>"

text \<open>A coinbase transaction paying 50 to address A, and a transaction spending that
  output to address B.\<close>

definition coinbase_tx :: TxRawResult where
  "coinbase_tx = \<lparr>tx_Txid = ''t1'',
     tx_Vin = [\<lparr>vin_Coinbase = ''cb'', vin_Txid = [], vin_Vout = 0\<rparr>],
     tx_Vout = [\<lparr>vout_Value = 50, vout_N = 0, vout_Addresses = [''A'']\<rparr>], tx_Time = 1\<rparr>"

definition spend_tx :: TxRawResult where
  "spend_tx = \<lparr>tx_Txid = ''t2'',
     tx_Vin = [\<lparr>vin_Coinbase = [], vin_Txid = ''t1'', vin_Vout = 0\<rparr>],
     tx_Vout = [\<lparr>vout_Value = 50, vout_N = 0, vout_Addresses = [''B'']\<rparr>], tx_Time = 2\<rparr>"

definition coinbase_block :: GetBlockVerboseResult where
  "coinbase_block = \<lparr>blk_Hash = ''h1'', blk_Tx = [coinbase_tx]\<rparr>"

definition spend_block :: GetBlockVerboseResult where
  "spend_block = \<lparr>blk_Hash = ''h2'', blk_Tx = [coinbase_tx, spend_tx]\<rparr>"

definition vout_A :: VoutStream where
  "vout_A = \<lparr>TxIDBelongTo = ''t1'', Value = 50, Voutindex = 0, Coinbase = True,
     Addresses = [''A''], Used = None\<rparr>"

text \<open>A transaction spending the same output and paying 49.5 to B, a fee of 0.5.\<close>

definition fee_tx :: TxRawResult where
  "fee_tx = \<lparr>tx_Txid = ''t3'',
     tx_Vin = [\<lparr>vin_Coinbase = [], vin_Txid = ''t1'', vin_Vout = 0\<rparr>],
     tx_Vout = [\<lparr>vout_Value = 99 / 2, vout_N = 0, vout_Addresses = [''B'']\<rparr>], tx_Time = 3\<rparr>"

text \<open>The store after the coinbase transaction has been synced.\<close>

definition funded_store :: world where
  "funded_store = \<lparr>block_idx = [], tx_idx = [], vout_idx = [(0, vout_A)],
     balance_idx = [(1, \<lparr>Address = ''A'', Amount = 50\<rparr>)],
     vout_partial = [], balance_partial = [], next_id = 3,
     failing = {}, requests = [], chan = [], float64 = example_float64\<rparr>"

text \<open>A store that holds a balance for A and rejects every balance update.\<close>

definition stale_store :: world where
  "stale_store = \<lparr>block_idx = [], tx_idx = [], vout_idx = [],
     balance_idx = [(0, \<lparr>Address = ''A'', Amount = 10\<rparr>)],
     vout_partial = [], balance_partial = [], next_id = 1,
     failing = {UpdateBalance}, requests = [], chan = [], float64 = example_float64\<rparr>"

text \<open>A store that holds the block at height 7 and the output of its second
  transaction, but not the output of its first.\<close>

definition partial_store :: world where
  "partial_store = \<lparr>block_idx = [(7, spend_block)], tx_idx = [],
     vout_idx = [(3, \<lparr>TxIDBelongTo = ''t2'', Value = 50, Voutindex = 0, Coinbase = False,
                       Addresses = [''B''], Used = None\<rparr>)],
     balance_idx = [(4, \<lparr>Address = ''B'', Amount = 50\<rparr>)],
     vout_partial = [], balance_partial = [], next_id = 6,
     failing = {}, requests = [], chan = [], float64 = example_float64\<rparr>"

text \<open>A store that holds the blocks at heights 7 and 8, an output of an earlier
  transaction and a balance of 10 for A.\<close>

definition seeded_store :: world where
  "seeded_store = \<lparr>block_idx = [(7, spend_block), (8, coinbase_block)], tx_idx = [],
     vout_idx = [(0, \<lparr>TxIDBelongTo = ''t0'', Value = 10, Voutindex = 0, Coinbase = True,
                       Addresses = [''A''], Used = None\<rparr>)],
     balance_idx = [(1, \<lparr>Address = ''A'', Amount = 10\<rparr>)],
     vout_partial = [], balance_partial = [], next_id = 2,
     failing = {}, requests = [], chan = [], float64 = example_float64\<rparr>"

text \<open>A store in which A has a balance of \<open>2^53\<close>, and the block it holds at height 8:
  one coinbase transaction paying 1 to A.\<close>

definition unit_block :: GetBlockVerboseResult where
  "unit_block = \<lparr>blk_Hash = ''h4'', blk_Tx =
     [\<lparr>tx_Txid = ''t4'',
       tx_Vin = [\<lparr>vin_Coinbase = ''cb'', vin_Txid = [], vin_Vout = 0\<rparr>],
       tx_Vout = [\<lparr>vout_Value = 1, vout_N = 0, vout_Addresses = [''A'']\<rparr>], tx_Time = 4\<rparr>]\<rparr>"

definition large_store :: world where
  "large_store = \<lparr>block_idx = [(8, unit_block)], tx_idx = [], vout_idx = [],
     balance_idx = [(0, \<lparr>Address = ''A'', Amount = 2 ^ 53\<rparr>)],
     vout_partial = [], balance_partial = [], next_id = 1,
     failing = {}, requests = [], chan = [], float64 = example_float64\<rparr>"

text \<open>An output with two addresses, of which only A has a balance in \<open>seeded_store\<close>.\<close>

definition two_address_vout :: VoutStream where
  "two_address_vout = \<lparr>TxIDBelongTo = ''t9'', Value = 5, Voutindex = 0, Coinbase = False,
     Addresses = [''A'', ''C''], Used = None\<rparr>"

section \<open>Notions used in the statements and proofs\<close>

text \<open>\<open>extends_log P w w'\<close>: the log of \<open>w'\<close> is the log of \<open>w\<close> followed by requests
  that all satisfy \<open>P\<close>.\<close>

definition extends_log :: "(request \<Rightarrow> bool) \<Rightarrow> world \<Rightarrow> world \<Rightarrow> bool" where
  "extends_log P w w' =
     (take (length (requests w)) (requests w') = requests w \<and>
      list_all P (drop (length (requests w)) (requests w')))"

text \<open>The requests that a sync can send, and the requests other than a flush.\<close>

definition sync_request :: "request \<Rightarrow> bool" where
  "sync_request r =
     (case r of
        ReqSearchVoutByIndex t n \<Rightarrow> True
      | ReqSearchBalance a \<Rightarrow> True
      | ReqUpdateVoutUsed i u \<Rightarrow> True
      | ReqUpdateBalance i x \<Rightarrow> True
      | ReqIndexVout v \<Rightarrow> True
      | ReqIndexBalance b \<Rightarrow> True
      | ReqIndexTx t \<Rightarrow> True
      | _ \<Rightarrow> False)"

definition not_flush :: "request \<Rightarrow> bool" where
  "not_flush r = (case r of ReqFlush ix \<Rightarrow> False | _ \<Rightarrow> True)"

definition same_store_env :: "world \<Rightarrow> world \<Rightarrow> bool" where
  "same_store_env w0 w =
     (failing w = failing w0 \<and> block_idx w = block_idx w0 \<and> chan w = chan w0 \<and>
      float64 w = float64 w0)"

definition log_has :: "request \<Rightarrow> world \<Rightarrow> world \<Rightarrow> bool" where
  "log_has r w0 w = (r \<in> set (requests w))"

text \<open>The addresses of the balance documents, in the order of the index.\<close>

definition balance_addresses :: "world \<Rightarrow> string list" where
  "balance_addresses w = map (\<lambda>(i, b). Address b) (balance_idx w)"

definition has_balance :: "string \<Rightarrow> world \<Rightarrow> world \<Rightarrow> bool" where
  "has_balance X w0 w = (X \<in> set (balance_addresses w))"

text \<open>
  The effect of the balance updates on the balance index, written on the list of
  documents: \<open>adjust a x\<close> adds \<open>x\<close> to the amount of the first document of address
  \<open>a\<close> (and does nothing when there is none), \<open>debits\<close> subtracts a list of credits one
  after the other, and \<open>credited L ds ds'\<close> holds when \<open>ds'\<close> comes from \<open>ds\<close> by the
  credits \<open>L\<close>, each either added to the first document of its address or, when the
  address has none, appended as a new document under some id.
\<close>

type_synonym balance_index = "(doc_id \<times> BTCBalance) list"

fun adjust :: "string \<Rightarrow> amount \<Rightarrow> balance_index \<Rightarrow> balance_index" where
  "adjust a x [] = []"
| "adjust a x ((i, b) # ds) =
     (if Address b = a then (i, b\<lparr>Amount := Amount b + x\<rparr>) # ds
      else (i, b) # adjust a x ds)"

fun has_address :: "string \<Rightarrow> balance_index \<Rightarrow> bool" where
  "has_address a [] = False"
| "has_address a ((i, b) # ds) = (Address b = a \<or> has_address a ds)"

fun debits :: "(string \<times> amount) list \<Rightarrow> balance_index \<Rightarrow> balance_index" where
  "debits [] ds = ds"
| "debits ((a, v) # L) ds = debits L (adjust a (- v) ds)"

inductive credited :: "(string \<times> amount) list \<Rightarrow> balance_index \<Rightarrow> balance_index \<Rightarrow> bool" where
  credited_Nil: "credited [] ds ds"
| credited_found:
    "has_address a ds \<Longrightarrow> credited L (adjust a v ds) ds' \<Longrightarrow>
     credited ((a, v) # L) ds ds'"
| credited_new:
    "\<not> has_address a ds \<Longrightarrow>
     credited L (ds @ [(i, \<lparr>Address = a, Amount = v\<rparr>)]) ds' \<Longrightarrow>
     credited ((a, v) # L) ds ds'"

text \<open>
  The amounts that the balance updates compute, followed on the ledger of an index: the
  amount of the first balance document of each address. A credit for an address with no
  document opens one with the credited value, which is a float64 already; every other
  credit, and every debit, stores the \<open>Float64()\<close> of a sum or a difference.
  \<open>exact_credits f L m\<close> and \<open>exact_debits f L m\<close> hold when the rounding \<open>f\<close> keeps
  each sum, or difference, that the credits or the debits \<open>L\<close> compute from the ledger
  \<open>m\<close>. \<open>exact_amounts w L\<close>: the rounding of \<open>w\<close> keeps what crediting \<open>L\<close> and then
  debiting \<open>L\<close> compute from the balances of \<open>w\<close>.
\<close>

type_synonym ledger = "string \<Rightarrow> amount option"

fun amount_at :: "string \<Rightarrow> balance_index \<Rightarrow> amount option" where
  "amount_at a [] = None"
| "amount_at a ((i, b) # ds) = (if Address b = a then Some (Amount b) else amount_at a ds)"

definition ledger_of :: "balance_index \<Rightarrow> ledger" where
  "ledger_of ds = (\<lambda>a. amount_at a ds)"

definition credit_ledger :: "string \<Rightarrow> amount \<Rightarrow> ledger \<Rightarrow> ledger" where
  "credit_ledger a v m = m(a \<mapsto> (case m a of None \<Rightarrow> v | Some x \<Rightarrow> x + v))"

definition debit_ledger :: "string \<Rightarrow> amount \<Rightarrow> ledger \<Rightarrow> ledger" where
  "debit_ledger a v m = (case m a of None \<Rightarrow> m | Some x \<Rightarrow> m(a \<mapsto> x - v))"

fun credit_all :: "(string \<times> amount) list \<Rightarrow> ledger \<Rightarrow> ledger" where
  "credit_all [] m = m"
| "credit_all ((a, v) # L) m = credit_all L (credit_ledger a v m)"

fun debit_all :: "(string \<times> amount) list \<Rightarrow> ledger \<Rightarrow> ledger" where
  "debit_all [] m = m"
| "debit_all ((a, v) # L) m = debit_all L (debit_ledger a v m)"

fun exact_credits :: "(amount \<Rightarrow> amount) \<Rightarrow> (string \<times> amount) list \<Rightarrow> ledger \<Rightarrow> bool" where
  "exact_credits f [] m = True"
| "exact_credits f ((a, v) # L) m =
     ((case m a of None \<Rightarrow> True | Some x \<Rightarrow> f (x + v) = x + v) \<and>
      exact_credits f L (credit_ledger a v m))"

fun exact_debits :: "(amount \<Rightarrow> amount) \<Rightarrow> (string \<times> amount) list \<Rightarrow> ledger \<Rightarrow> bool" where
  "exact_debits f [] m = True"
| "exact_debits f ((a, v) # L) m =
     ((case m a of None \<Rightarrow> True | Some x \<Rightarrow> f (x - v) = x - v) \<and>
      exact_debits f L (debit_ledger a v m))"

definition exact_amounts :: "world \<Rightarrow> (string \<times> amount) list \<Rightarrow> bool" where
  "exact_amounts w L \<longleftrightarrow>
     exact_credits (float64 w) L (ledger_of (balance_idx w)) \<and>
     exact_debits (float64 w) L (credit_all L (ledger_of (balance_idx w)))"

text \<open>Whether a vout index holds a document of a transaction id, or of an output
  index.\<close>

type_synonym vout_index = "(doc_id \<times> VoutStream) list"

fun has_txid :: "string \<Rightarrow> vout_index \<Rightarrow> bool" where
  "has_txid t [] = False"
| "has_txid t ((i, v) # ds) = (TxIDBelongTo v = t \<or> has_txid t ds)"

fun has_index :: "uint32 \<Rightarrow> vout_index \<Rightarrow> bool" where
  "has_index n [] = False"
| "has_index n ((i, v) # ds) = (Voutindex v = n \<or> has_index n ds)"

definition same_but_balance :: "world \<Rightarrow> world \<Rightarrow> bool" where
  "same_but_balance w0 w =
     (failing w = failing w0 \<and> block_idx w = block_idx w0 \<and> vout_idx w = vout_idx w0 \<and>
      next_id w = next_id w0 \<and> tx_idx w = tx_idx w0 \<and> float64 w = float64 w0)"

text \<open>The UnspentOutput documents that the sync of a transaction, or of a list of
  transactions, creates, and the credits these give rise to.\<close>

definition new_vouts :: "TxRawResult \<Rightarrow> Vout list \<Rightarrow> VoutStream list" where
  "new_vouts tx outs =
     map (\<lambda>out. BTCVoutStream out (tx_Vin tx) (tx_Txid tx))
       (filter (\<lambda>out. vout_Addresses out \<noteq> []) outs)"

definition block_new_vouts :: "TxRawResult list \<Rightarrow> VoutStream list" where
  "block_new_vouts txs = concat (map (\<lambda>tx. new_vouts tx (tx_Vout tx)) txs)"

definition credits_of :: "VoutStream list \<Rightarrow> (string \<times> amount) list" where
  "credits_of recs = concat (map (\<lambda>r. map (\<lambda>a. (a, Value r)) (Addresses r)) recs)"

text \<open>
  What the document of a transaction is compared with. \<open>found_inputs w vins\<close> are the
  inputs among \<open>vins\<close> whose referenced output the lookup finds in the store \<open>w\<close>, each
  as the first address and the value of the output found. \<open>indexed_outputs\<close> are the
  outputs that have an address, the ones \<open>BTCSyncTx\<close> indexes, and \<open>output_summary\<close> is
  the first address and the value of an output.
\<close>

definition found_input :: "world \<Rightarrow> Vin \<Rightarrow> AddressWithValueInTx option" where
  "found_input w vin =
     (case fst (FindVoutByVoutIndexAndBelongTxID (vin_Txid vin) (vin_Vout vin) w) of
        Inl err \<Rightarrow> None
      | Inr (i, v) \<Rightarrow> Some \<lparr>awv_Address = hd (Addresses v), awv_Value = Value v\<rparr>)"

fun found_inputs :: "world \<Rightarrow> Vin list \<Rightarrow> AddressWithValueInTx list" where
  "found_inputs w [] = []"
| "found_inputs w (vin # vins) =
     (case found_input w vin of
        None \<Rightarrow> found_inputs w vins
      | Some x \<Rightarrow> x # found_inputs w vins)"

definition indexed_outputs :: "Vout list \<Rightarrow> Vout list" where
  "indexed_outputs outs = filter (\<lambda>vout. vout_Addresses vout \<noteq> []) outs"

definition output_summary :: "Vout \<Rightarrow> AddressWithValueInTx" where
  "output_summary vout =
     \<lparr>awv_Address = hd (vout_Addresses vout), awv_Value = vout_Value vout\<rparr>"

text \<open>What a lookup by transaction id and output index answers, but for the spender of the
  document found: its id, addresses and value.\<close>

definition found_vout :: "world \<Rightarrow> string \<Rightarrow> uint32 \<Rightarrow> (doc_id \<times> string list \<times> amount) option" where
  "found_vout w t n =
     (if SearchVout \<in> failing w then None
      else map_option (\<lambda>(i, v). (i, Addresses v, Value v))
             (find (\<lambda>(i, v). TxIDBelongTo v = t \<and> Voutindex v = n) (vout_idx w)))"

definition same_found :: "world \<Rightarrow> world \<Rightarrow> bool" where
  "same_found w0 w = (found_vout w = found_vout w0)"

text \<open>The request by which \<open>BTCSyncTx\<close> credits \<open>v\<close> to address \<open>X\<close> in the store \<open>u\<close>,
  once the balance search has answered: the insert of a balance document when \<open>X\<close> has
  none, the update of its amount otherwise.\<close>

definition credit_request :: "string \<Rightarrow> amount \<Rightarrow> world \<Rightarrow> request" where
  "credit_request X v u =
     (case find (\<lambda>(i, b). Address b = X) (balance_idx u) of
        None \<Rightarrow> ReqIndexBalance (Some \<lparr>Address = X, Amount = v\<rparr>)
      | Some (j, b) \<Rightarrow> ReqUpdateBalance j (float64 u (Amount b + v)))"

text \<open>The ids of the vout and balance documents are distinct within their index and were
  drawn from the counter.\<close>

definition ids_below :: "world \<Rightarrow> bool" where
  "ids_below w \<longleftrightarrow>
     distinct (map fst (vout_idx w)) \<and> distinct (map fst (balance_idx w)) \<and>
     list_all (\<lambda>(i, d). i < next_id w) (vout_idx w) \<and>
     list_all (\<lambda>(i, d). i < next_id w) (balance_idx w)"

text \<open>
  A relation between a starting world and a later one is closed under the steps of the
  balance update, of sync or of rollback when each request these can send keeps it.
  What is closed holds between the world a function is given and the one it leaves.
\<close>

definition balance_closed :: "(world \<Rightarrow> world \<Rightarrow> bool) \<Rightarrow> bool" where
  "balance_closed R \<longleftrightarrow>
     (\<forall>w0 w a. R w0 w \<longrightarrow> R w0 (send_request (ReqSearchBalance a) w)) \<and>
     (\<forall>w0 w i a. R w0 w \<longrightarrow> R w0 (snd (es_update_balance i a w)))"

definition sync_closed :: "(world \<Rightarrow> world \<Rightarrow> bool) \<Rightarrow> bool" where
  "sync_closed R \<longleftrightarrow>
     balance_closed R \<and>
     (\<forall>w0 w t n. R w0 w \<longrightarrow> R w0 (send_request (ReqSearchVoutByIndex t n) w)) \<and>
     (\<forall>w0 w i u. R w0 w \<longrightarrow> R w0 (es_update_vout_used i u w)) \<and>
     (\<forall>w0 w v. R w0 w \<longrightarrow> R w0 (es_index_vout v w)) \<and>
     (\<forall>w0 w b. R w0 w \<longrightarrow> R w0 (es_index_balance b w)) \<and>
     (\<forall>w0 w t. R w0 w \<longrightarrow> R w0 (es_index_tx t w))"

definition rollback_closed :: "(world \<Rightarrow> world \<Rightarrow> bool) \<Rightarrow> bool" where
  "rollback_closed R \<longleftrightarrow>
     balance_closed R \<and>
     (\<forall>w0 w t n. R w0 w \<longrightarrow> R w0 (send_request (ReqSearchVoutByIndex t n) w)) \<and>
     (\<forall>w0 w t u n. R w0 w \<longrightarrow> R w0 (send_request (ReqSearchVoutByUsed t u n) w)) \<and>
     (\<forall>w0 w h. R w0 w \<longrightarrow> R w0 (send_request (ReqGetBlock h) w)) \<and>
     (\<forall>w0 w h. R w0 w \<longrightarrow> R w0 (snd (DeleteTxstreamByBlockHash h w))) \<and>
     (\<forall>w0 w i u. R w0 w \<longrightarrow> R w0 (es_update_vout_used i u w)) \<and>
     (\<forall>w0 w i. R w0 w \<longrightarrow> R w0 (es_delete_vout i w))"

section \<open>Store operations\<close>

lemma send_request_fields [simp]:
  "block_idx (send_request r w) = block_idx w"
  "tx_idx (send_request r w) = tx_idx w"
  "vout_idx (send_request r w) = vout_idx w"
  "balance_idx (send_request r w) = balance_idx w"
  "next_id (send_request r w) = next_id w"
  "failing (send_request r w) = failing w"
  "chan (send_request r w) = chan w"
  "float64 (send_request r w) = float64 w"
  "requests (send_request r w) = requests w @ [r]"
  by (simp_all add: send_request_def)

lemma es_index_vout_fields [simp]:
  "vout_idx (es_index_vout v w) =
     (if IndexVout \<in> failing w then vout_idx w else vout_idx w @ [(next_id w, v)])"
  "next_id (es_index_vout v w) =
     (if IndexVout \<in> failing w then next_id w else Suc (next_id w))"
  "block_idx (es_index_vout v w) = block_idx w"
  "tx_idx (es_index_vout v w) = tx_idx w"
  "balance_idx (es_index_vout v w) = balance_idx w"
  "failing (es_index_vout v w) = failing w"
  "chan (es_index_vout v w) = chan w"
  "float64 (es_index_vout v w) = float64 w"
  "requests (es_index_vout v w) = requests w @ [ReqIndexVout v]"
  by (simp_all add: es_index_vout_def Let_def)

lemma es_index_balance_fields [simp]:
  "block_idx (es_index_balance b w) = block_idx w"
  "tx_idx (es_index_balance b w) = tx_idx w"
  "vout_idx (es_index_balance b w) = vout_idx w"
  "failing (es_index_balance b w) = failing w"
  "chan (es_index_balance b w) = chan w"
  "float64 (es_index_balance b w) = float64 w"
  "requests (es_index_balance b w) = requests w @ [ReqIndexBalance b]"
  by (simp_all add: es_index_balance_def Let_def split: option.splits)

lemma es_index_tx_fields [simp]:
  "tx_idx (es_index_tx t w) =
     (if IndexTx \<in> failing w then tx_idx w else tx_idx w @ [(next_id w, t)])"
  "next_id (es_index_tx t w) = (if IndexTx \<in> failing w then next_id w else Suc (next_id w))"
  "block_idx (es_index_tx t w) = block_idx w"
  "vout_idx (es_index_tx t w) = vout_idx w"
  "balance_idx (es_index_tx t w) = balance_idx w"
  "failing (es_index_tx t w) = failing w"
  "chan (es_index_tx t w) = chan w"
  "float64 (es_index_tx t w) = float64 w"
  "requests (es_index_tx t w) = requests w @ [ReqIndexTx t]"
  by (simp_all add: es_index_tx_def Let_def)

lemma es_update_vout_used_fields [simp]:
  "block_idx (es_update_vout_used i u w) = block_idx w"
  "tx_idx (es_update_vout_used i u w) = tx_idx w"
  "balance_idx (es_update_vout_used i u w) = balance_idx w"
  "next_id (es_update_vout_used i u w) = next_id w"
  "failing (es_update_vout_used i u w) = failing w"
  "chan (es_update_vout_used i u w) = chan w"
  "float64 (es_update_vout_used i u w) = float64 w"
  "requests (es_update_vout_used i u w) = requests w @ [ReqUpdateVoutUsed i u]"
  by (simp_all add: es_update_vout_used_def Let_def)

lemma es_update_balance_fields [simp]:
  "block_idx (snd (es_update_balance i a w)) = block_idx w"
  "tx_idx (snd (es_update_balance i a w)) = tx_idx w"
  "vout_idx (snd (es_update_balance i a w)) = vout_idx w"
  "next_id (snd (es_update_balance i a w)) = next_id w"
  "failing (snd (es_update_balance i a w)) = failing w"
  "chan (snd (es_update_balance i a w)) = chan w"
  "float64 (snd (es_update_balance i a w)) = float64 w"
  "requests (snd (es_update_balance i a w)) = requests w @ [ReqUpdateBalance i a]"
  by (simp_all add: es_update_balance_def Let_def)

lemma es_delete_vout_fields [simp]:
  "block_idx (es_delete_vout i w) = block_idx w"
  "tx_idx (es_delete_vout i w) = tx_idx w"
  "balance_idx (es_delete_vout i w) = balance_idx w"
  "next_id (es_delete_vout i w) = next_id w"
  "failing (es_delete_vout i w) = failing w"
  "chan (es_delete_vout i w) = chan w"
  "float64 (es_delete_vout i w) = float64 w"
  "requests (es_delete_vout i w) = requests w @ [ReqDeleteVout i]"
  by (simp_all add: es_delete_vout_def Let_def)

lemma Find_snd [simp]:
  "snd (FindVoutByVoutIndexAndBelongTxID t n w) = send_request (ReqSearchVoutByIndex t n) w"
  "snd (FindVoutByUsedFieldAndBelongTxID vin t w) =
     send_request (ReqSearchVoutByUsed (vin_Txid vin) t (vin_Vout vin)) w"
  "snd (FindBTCBlockByHeight h w) = send_request (ReqGetBlock h) w"
  "snd (FindBalanceWithAddressOrInitWithAmount a v w) = send_request (ReqSearchBalance a) w"
  by (simp_all add: FindVoutByVoutIndexAndBelongTxID_def FindVoutByUsedFieldAndBelongTxID_def
      FindBTCBlockByHeight_def FindBalanceWithAddressOrInitWithAmount_def)

lemma UpdateBTCBlance_fields [simp]:
  "block_idx (snd (UpdateBTCBlance ot i b v w)) = block_idx w"
  "tx_idx (snd (UpdateBTCBlance ot i b v w)) = tx_idx w"
  "vout_idx (snd (UpdateBTCBlance ot i b v w)) = vout_idx w"
  "next_id (snd (UpdateBTCBlance ot i b v w)) = next_id w"
  "failing (snd (UpdateBTCBlance ot i b v w)) = failing w"
  "chan (snd (UpdateBTCBlance ot i b v w)) = chan w"
  "float64 (snd (UpdateBTCBlance ot i b v w)) = float64 w"
  by (simp_all add: UpdateBTCBlance_def Let_def)

lemma UpdateVoutUsedField_fields [simp]:
  "block_idx (UpdateVoutUsedField i t vin w) = block_idx w"
  "tx_idx (UpdateVoutUsedField i t vin w) = tx_idx w"
  "balance_idx (UpdateVoutUsedField i t vin w) = balance_idx w"
  "next_id (UpdateVoutUsedField i t vin w) = next_id w"
  "failing (UpdateVoutUsedField i t vin w) = failing w"
  "chan (UpdateVoutUsedField i t vin w) = chan w"
  "float64 (UpdateVoutUsedField i t vin w) = float64 w"
  by (simp_all add: UpdateVoutUsedField_def)

lemma DeleteTxstreamByBlockHash_fields [simp]:
  "block_idx (snd (DeleteTxstreamByBlockHash h w)) = block_idx w"
  "vout_idx (snd (DeleteTxstreamByBlockHash h w)) = vout_idx w"
  "balance_idx (snd (DeleteTxstreamByBlockHash h w)) = balance_idx w"
  "next_id (snd (DeleteTxstreamByBlockHash h w)) = next_id w"
  "failing (snd (DeleteTxstreamByBlockHash h w)) = failing w"
  "chan (snd (DeleteTxstreamByBlockHash h w)) = chan w"
  "float64 (snd (DeleteTxstreamByBlockHash h w)) = float64 w"
  "requests (snd (DeleteTxstreamByBlockHash h w)) = requests w @ [ReqDeleteTxByHash h]"
  by (simp_all add: DeleteTxstreamByBlockHash_def Let_def)

lemma outcome_world:
  "f = Done x w \<Longrightarrow> w = world_of f"
  "f = Fatal w \<Longrightarrow> w = world_of f"
  "f = Panic w \<Longrightarrow> w = world_of f"
  by simp_all

lemmas model_defs =
  BTCSyncTx_def sync_tx_def FindVoutByVoutIndexAndBelongTxID_def
  FindVoutByUsedFieldAndBelongTxID_def FindBalanceWithAddressOrInitWithAmount_def
  FindBTCBlockByHeight_def DeleteTxstreamByBlockHash_def
  RollbackTxVoutBalanceTypeByBlockHeight_def BTCRollBackAndSyncTx_def
  UpdateBTCBlance_def UpdateVoutUsedField_def UpdateBTCBlanceByVout_def
  es_index_vout_def es_index_balance_def es_index_tx_def es_update_vout_used_def
  es_update_balance_def es_delete_vout_def send_request_def delete_doc_def
  BTCVoutAddress_def BTCVoutStream_def BTCTxStream_def is_coinbase_def used_matches_def
  upsert_partial_def example_float64_def Flush_def Let_def

lemmas example_defs =
  empty_store_def coinbase_tx_def spend_tx_def fee_tx_def coinbase_block_def spend_block_def
  vout_A_def funded_store_def stale_store_def partial_store_def seeded_store_def
  two_address_vout_def unit_block_def large_store_def

lemma update_doc_idem:
  "(\<And>d. f (f d) = f d) \<Longrightarrow> update_doc i f (update_doc i f ds) = update_doc i f ds"
  by (induction ds) auto

lemma has_id_update_doc [simp]:
  "has_id i (update_doc j f ds) = has_id i ds"
  by (induction ds) (auto split: if_splits)

lemma has_id_append [simp]:
  "has_id i (ds @ es) = (has_id i ds \<or> has_id i es)"
  by (induction ds) auto

lemma update_doc_append:
  "update_doc i f (ds @ es) =
     (if has_id i ds then update_doc i f ds @ es else ds @ update_doc i f es)"
  by (induction ds) auto

lemma upsert_partial_idem:
  "upsert_partial i p (upsert_partial i p ps) = upsert_partial i p ps"
  by (simp add: upsert_partial_def update_doc_idem update_doc_append)

lemma find_balance_missing:
  "a \<notin> Address ` snd ` set ds \<Longrightarrow> find (\<lambda>(i, b). Address b = a) ds = None"
  by (induction ds) (auto split: prod.splits)

subsection \<open>Creating an UnspentOutput\<close>

text \<open>
  C7, as stated, fails: the create of \<open>BTCSyncTx\<close> is \<open>client.Index()\<close> with no id, so
  the store assigns a new id each time. Creating the output of the coinbase transaction
  twice in the empty store leaves two records for \<open>(t1, 0)\<close>, not one.
\<close>

theorem create_twice_two_records:
  "length (filter (\<lambda>(i, v). TxIDBelongTo v = ''t1'' \<and> Voutindex v = 0)
     (vout_idx (es_index_vout vout_A (es_index_vout vout_A empty_store)))) = 2"
  by (simp add: es_index_vout_def send_request_def Let_def empty_store_def vout_A_def)

text \<open>
  C7, amended: the create is a bare insert under a fresh id. On a store that accepts the
  request, performing the same create twice appends two records with the same contents
  and consecutive ids to the vout index.
\<close>

theorem create_twice_appends_two:
  "IndexVout \<notin> failing w \<Longrightarrow>
   vout_idx (es_index_vout v (es_index_vout v w)) =
     vout_idx w @ [(next_id w, v), (Suc (next_id w), v)]"
  by (simp add: es_index_vout_def send_request_def Let_def)

theorem create_twice_appends_two_witness:
  "IndexVout \<notin> failing empty_store \<and>
   vout_idx (es_index_vout vout_A (es_index_vout vout_A empty_store)) =
     [(0, vout_A), (1, vout_A)]"
  using create_twice_appends_two [of empty_store vout_A]
  by (simp add: empty_store_def)

subsection \<open>Marking an output as spent\<close>

text \<open>
  C8: \<open>UpdateVoutUsedField\<close> is idempotent. A second call with the same arguments
  changes nothing but the log of requests: every index is as the first call left it.
  The balance index is not touched by either call, so there is no second debit.
\<close>

theorem markSpent_idempotent:
  "UpdateVoutUsedField i txid vin (UpdateVoutUsedField i txid vin w) =
     (UpdateVoutUsedField i txid vin w)
       \<lparr>requests := requests (UpdateVoutUsedField i txid vin w) @
          [ReqUpdateVoutUsed i (Some \<lparr>used_Txid = txid, used_VinIndex = vin_Vout vin\<rparr>)]\<rparr>
   \<and> balance_idx (UpdateVoutUsedField i txid vin (UpdateVoutUsedField i txid vin w)) =
       balance_idx w"
  by (simp add: UpdateVoutUsedField_def es_update_vout_used_def send_request_def Let_def
      update_doc_idem upsert_partial_idem)

subsection \<open>Balance updates driven by a vout\<close>

lemma UpdateBTCBlanceByVout_loop_missing:
  "\<forall>a\<in>set as. a \<notin> Address ` snd ` set (balance_idx w) \<Longrightarrow>
   UpdateBTCBlanceByVout_loop as v ot w =
     (None, w\<lparr>requests := requests w @ map ReqSearchBalance as\<rparr>)"
proof (induction as arbitrary: w)
  case Nil
  then show ?case by simp
next
  case (Cons a as)
  let ?w1 = "send_request (ReqSearchBalance a) w"
  have miss: "find (\<lambda>(i, b). Address b = a) (balance_idx w) = None"
    using Cons.prems by (simp add: find_balance_missing)
  have step: "UpdateBTCBlanceByVout_loop (a # as) v ot w = UpdateBTCBlanceByVout_loop as v ot ?w1"
    using miss by (simp add: FindBalanceWithAddressOrInitWithAmount_def)
  have "\<forall>a\<in>set as. a \<notin> Address ` snd ` set (balance_idx ?w1)"
    using Cons.prems by (simp add: send_request_def)
  then have "UpdateBTCBlanceByVout_loop as v ot ?w1 =
      (None, ?w1\<lparr>requests := requests ?w1 @ map ReqSearchBalance as\<rparr>)"
    by (rule Cons.IH)
  then show ?case
    unfolding step by (simp add: send_request_def)
qed

section \<open>Relations kept by every step\<close>

lemma sync_closed_balance: "sync_closed R \<Longrightarrow> balance_closed R"
  by (simp add: sync_closed_def)

lemma rollback_closed_balance: "rollback_closed R \<Longrightarrow> balance_closed R"
  by (simp add: rollback_closed_def)

lemma closed_UpdateBTCBlance:
  "balance_closed R \<Longrightarrow> R w0 w \<Longrightarrow> R w0 (snd (UpdateBTCBlance ot i b v w))"
  by (simp add: balance_closed_def UpdateBTCBlance_def)

lemma closed_UpdateBTCBlanceByVout_loop:
  assumes "balance_closed R"
  shows "R w0 w \<Longrightarrow> R w0 (snd (UpdateBTCBlanceByVout_loop as v ot w))"
proof (induction as arbitrary: w)
  case Nil
  then show ?case by simp
next
  case (Cons a as)
  have s: "\<And>w a. R w0 w \<Longrightarrow> R w0 (send_request (ReqSearchBalance a) w)"
    using assms by (simp add: balance_closed_def)
  note u = closed_UpdateBTCBlance [OF assms]
  show ?case using Cons.prems
    by (auto simp: case_prod_beta split: balance_result.splits option.splits
        intro!: Cons.IH s u)
qed

lemma closed_UpdateBTCBlanceByVout:
  "balance_closed R \<Longrightarrow> R w0 w \<Longrightarrow> R w0 (snd (UpdateBTCBlanceByVout vo ot w))"
  by (simp add: UpdateBTCBlanceByVout_def closed_UpdateBTCBlanceByVout_loop)

lemma closed_sync_vins:
  assumes "sync_closed R"
  shows "R w0 w \<Longrightarrow> R w0 (world_of (sync_vins tx vins (a, l) w))"
proof (induction vins arbitrary: a l w)
  case Nil
  then show ?case by simp
next
  case (Cons vin vins)
  have s: "\<And>w t n. R w0 w \<Longrightarrow> R w0 (send_request (ReqSearchVoutByIndex t n) w)"
    and u: "\<And>w i t vin. R w0 w \<Longrightarrow> R w0 (UpdateVoutUsedField i t vin w)"
    using assms by (simp_all add: sync_closed_def UpdateVoutUsedField_def)
  note b = closed_UpdateBTCBlanceByVout [OF sync_closed_balance [OF assms]]
  show ?case using Cons.prems
    by (auto simp: case_prod_beta split: sum.splits list.splits option.splits
        intro!: Cons.IH s u b)
qed

lemma closed_sync_credit:
  assumes "sync_closed R"
  shows "R w0 w \<Longrightarrow> R w0 (world_of (sync_credit as v w))"
proof (induction as arbitrary: w)
  case Nil
  then show ?case by simp
next
  case (Cons a as)
  have s: "\<And>w a. R w0 w \<Longrightarrow> R w0 (send_request (ReqSearchBalance a) w)"
    and i: "\<And>w b. R w0 w \<Longrightarrow> R w0 (es_index_balance b w)"
    using assms by (simp_all add: sync_closed_def balance_closed_def)
  note u = closed_UpdateBTCBlance [OF sync_closed_balance [OF assms]]
  show ?case using Cons.prems
    by (auto simp: case_prod_beta split: balance_result.splits option.splits
        intro!: Cons.IH s u i)
qed


lemma closed_sync_vouts:
  assumes "sync_closed R"
  shows "R w0 w \<Longrightarrow> R w0 (world_of (sync_vouts tx vouts (a, l) w))"
proof (induction vouts arbitrary: a l w)
  case Nil
  then show ?case by simp
next
  case (Cons vout vouts)
  have i: "\<And>w v. R w0 w \<Longrightarrow> R w0 (es_index_vout v w)"
    using assms by (simp_all add: sync_closed_def)
  note c = closed_sync_credit [OF assms]
  show ?case using Cons.prems
    by (auto simp del: sync_credit.simps split: sum.splits list.splits outcome.splits
        dest!: outcome_world intro!: Cons.IH c i)
qed

lemma closed_sync_tx:
  assumes "sync_closed R"
  shows "R w0 w \<Longrightarrow> R w0 (world_of (sync_tx h tx w))"
proof -
  assume r: "R w0 w"
  have i: "\<And>w t. R w0 w \<Longrightarrow> R w0 (es_index_tx t w)"
    using assms by (simp_all add: sync_closed_def)
  note a = closed_sync_vins [OF assms] and b = closed_sync_vouts [OF assms]
  show ?thesis using r
    by (auto simp: sync_tx_def split: outcome.splits dest!: outcome_world intro!: a b i)
qed

lemma closed_sync_txs:
  assumes "sync_closed R"
  shows "R w0 w \<Longrightarrow> R w0 (world_of (sync_txs h txs w))"
proof (induction txs arbitrary: w)
  case Nil
  then show ?case by simp
next
  case (Cons tx txs)
  note a = closed_sync_tx [OF assms]
  show ?case using Cons.prems
    by (auto split: outcome.splits dest!: outcome_world intro!: Cons.IH a)
qed

lemma closed_BTCSyncTx:
  "sync_closed R \<Longrightarrow> R w0 w \<Longrightarrow> R w0 (world_of (BTCSyncTx from height block w))"
  by (simp add: BTCSyncTx_def closed_sync_txs)

lemma closed_rollback_vins:
  assumes "rollback_closed R"
  shows "R w0 w \<Longrightarrow> R w0 (rollback_vins tx vins w)"
proof (induction vins arbitrary: w)
  case Nil
  then show ?case by simp
next
  case (Cons vin vins)
  have s: "\<And>w t u n. R w0 w \<Longrightarrow> R w0 (send_request (ReqSearchVoutByUsed t u n) w)"
    and u: "\<And>w i u. R w0 w \<Longrightarrow> R w0 (es_update_vout_used i u w)"
    using assms by (simp_all add: rollback_closed_def)
  note b = closed_UpdateBTCBlanceByVout [OF rollback_closed_balance [OF assms]]
  show ?case using Cons.prems
    by (auto simp: case_prod_beta split: sum.splits intro!: Cons.IH s u b)
qed

lemma closed_rollback_vouts:
  assumes "rollback_closed R"
  shows "R w0 w \<Longrightarrow> R w0 (rollback_vouts tx vouts w)"
proof (induction vouts arbitrary: w)
  case Nil
  then show ?case by simp
next
  case (Cons vout vouts)
  have s: "\<And>w t n. R w0 w \<Longrightarrow> R w0 (send_request (ReqSearchVoutByIndex t n) w)"
    and d: "\<And>w i. R w0 w \<Longrightarrow> R w0 (es_delete_vout i w)"
    using assms by (simp_all add: rollback_closed_def)
  note b = closed_UpdateBTCBlanceByVout [OF rollback_closed_balance [OF assms]]
  show ?case using Cons.prems
    by (auto simp: case_prod_beta split: sum.splits intro!: Cons.IH s d b)
qed

lemma closed_rollback_txs:
  assumes "rollback_closed R"
  shows "R w0 w \<Longrightarrow> R w0 (rollback_txs txs w)"
proof (induction txs arbitrary: w)
  case Nil
  then show ?case by simp
next
  case (Cons tx txs)
  show ?case using Cons.prems
    by (auto intro!: Cons.IH closed_rollback_vins [OF assms] closed_rollback_vouts [OF assms])
qed

lemma closed_Rollback:
  assumes "rollback_closed R"
  shows "R w0 w \<Longrightarrow> R w0 (snd (RollbackTxVoutBalanceTypeByBlockHeight height w))"
proof -
  assume r: "R w0 w"
  have s: "\<And>w h. R w0 w \<Longrightarrow> R w0 (send_request (ReqGetBlock h) w)"
    and d: "\<And>w h. R w0 w \<Longrightarrow> R w0 (snd (DeleteTxstreamByBlockHash h w))"
    using assms by (simp_all add: rollback_closed_def)
  show ?thesis using r
    by (auto simp: RollbackTxVoutBalanceTypeByBlockHeight_def case_prod_beta
        split: sum.splits option.splits intro!: closed_rollback_txs [OF assms] s d)
qed


subsection \<open>The log of requests\<close>

lemma sync_request_simps [simp]:
  "sync_request (ReqSearchVoutByIndex t n)"
  "sync_request (ReqSearchBalance a)"
  "sync_request (ReqUpdateVoutUsed i u)"
  "sync_request (ReqUpdateBalance i x)"
  "sync_request (ReqIndexVout v)"
  "sync_request (ReqIndexBalance b)"
  "sync_request (ReqIndexTx ts)"
  "\<not> sync_request (ReqGetBlock h)"
  "\<not> sync_request (ReqFlush ix)"
  by (simp_all add: sync_request_def)

lemma extends_log_iff:
  "extends_log P w w' \<longleftrightarrow> (\<exists>rs. requests w' = requests w @ rs \<and> list_all P rs)"
proof
  assume "extends_log P w w'"
  then have "requests w' = requests w @ drop (length (requests w)) (requests w')"
    and "list_all P (drop (length (requests w)) (requests w'))"
    unfolding extends_log_def by (metis append_take_drop_id, simp)
  then show "\<exists>rs. requests w' = requests w @ rs \<and> list_all P rs" by blast
next
  assume "\<exists>rs. requests w' = requests w @ rs \<and> list_all P rs"
  then show "extends_log P w w'" by (auto simp: extends_log_def)
qed

lemma extends_log_refl [simp]: "extends_log P w w"
  by (simp add: extends_log_def)

lemma extends_log_trans:
  "extends_log P w w1 \<Longrightarrow> extends_log P w1 w2 \<Longrightarrow> extends_log P w w2"
  by (auto simp: extends_log_iff)

lemma extends_log_mono:
  "extends_log P w w' \<Longrightarrow> (\<And>r. P r \<Longrightarrow> Q r) \<Longrightarrow> extends_log Q w w'"
  by (auto simp: extends_log_iff list_all_iff)

lemma extends_log_prefix: "extends_log P w w' \<Longrightarrow> prefix (requests w) (requests w')"
  by (auto simp: extends_log_iff)

lemma extends_log_step:
  "requests w1 = requests w @ rs \<Longrightarrow> list_all P rs \<Longrightarrow> extends_log P w1 w2 \<Longrightarrow> extends_log P w w2"
  by (auto simp: extends_log_iff)




lemma sync_closed_env: "sync_closed same_store_env"
  by (simp add: sync_closed_def balance_closed_def same_store_env_def)

lemma rollback_closed_env: "rollback_closed same_store_env"
  by (simp add: rollback_closed_def balance_closed_def same_store_env_def)

lemma extends_log_snoc:
  "extends_log P w0 w \<Longrightarrow> requests w' = requests w @ [r] \<Longrightarrow> P r \<Longrightarrow> extends_log P w0 w'"
  by (auto simp: extends_log_iff)

lemma sync_closed_log: "sync_closed (extends_log sync_request)"
  by (auto simp: sync_closed_def balance_closed_def elim!: extends_log_snoc)

lemma not_flush_simps [simp]:
  "not_flush (ReqSearchVoutByIndex t n)"
  "not_flush (ReqSearchVoutByUsed t u n)"
  "not_flush (ReqSearchBalance a)"
  "not_flush (ReqGetBlock h)"
  "not_flush (ReqDeleteTxByHash bh)"
  "not_flush (ReqUpdateVoutUsed i uu)"
  "not_flush (ReqUpdateBalance i x)"
  "not_flush (ReqIndexVout v)"
  "not_flush (ReqIndexBalance b)"
  "not_flush (ReqIndexTx ts)"
  "not_flush (ReqDeleteVout i)"
  "\<not> not_flush (ReqFlush ix)"
  by (simp_all add: not_flush_def)

lemma sync_closed_not_flush: "sync_closed (extends_log not_flush)"
  by (auto simp: sync_closed_def balance_closed_def elim!: extends_log_snoc)

lemma rollback_closed_not_flush: "rollback_closed (extends_log not_flush)"
  by (auto simp: rollback_closed_def balance_closed_def elim!: extends_log_snoc)

lemma rollback_closed_log_has: "rollback_closed (log_has r)"
  by (simp add: rollback_closed_def balance_closed_def log_has_def)

lemma sint_add5:
  fixes x :: "32 word"
  assumes "sint x \<le> 2147483642"
  shows "sint (x + 5) = sint x + 5"
proof -
  have lo: "- (2 ^ 31) \<le> sint x" using sint_ge [of x] by simp
  have "sint (x + 5) = signed_take_bit 31 (sint x + 5)"
    by (simp add: sint_word_ariths)
  also have "\<dots> = sint x + 5"
    using lo assms by (intro signed_take_bit_int_eq_self) simp_all
  finally show ?thesis .
qed

section \<open>Balance-update failures during sync\<close>

text \<open>The error that \<open>BTCSyncTx\<close> answers with \<open>log.Fatal\<close> is never returned: the
  operation is "add" or "sub", and a failed update request is only printed.\<close>

lemma UpdateBTCBlance_add_sub [simp]:
  "fst (UpdateBTCBlance ''add'' i b v w) = None"
  "fst (UpdateBTCBlance ''sub'' i b v w) = None"
  by (simp_all add: UpdateBTCBlance_def)

lemma UpdateBTCBlanceByVout_loop_ok:
  "ot = ''add'' \<or> ot = ''sub'' \<Longrightarrow> fst (UpdateBTCBlanceByVout_loop as v ot w) = None"
  by (induction as arbitrary: w)
     (auto simp: case_prod_beta split: balance_result.splits option.splits)

lemma UpdateBTCBlanceByVout_ok [simp]:
  "fst (UpdateBTCBlanceByVout vo ''add'' w) = None"
  "fst (UpdateBTCBlanceByVout vo ''sub'' w) = None"
  by (simp_all add: UpdateBTCBlanceByVout_def UpdateBTCBlanceByVout_loop_ok)

lemma sync_vins_not_fatal: "sync_vins tx vins (a, l) w \<noteq> Fatal w'"
  by (induction vins arbitrary: a l w)
     (auto simp: case_prod_beta split: sum.splits list.splits option.splits)

lemma sync_credit_not_fatal: "sync_credit as v w \<noteq> Fatal w'"
  by (induction as arbitrary: w)
     (auto simp: case_prod_beta split: balance_result.splits option.splits)

lemma sync_vouts_not_fatal: "sync_vouts tx vouts (a, l) w \<noteq> Fatal w'"
  by (induction vouts arbitrary: a l w)
     (auto simp del: sync_credit.simps simp: sync_credit_not_fatal
        split: sum.splits list.splits outcome.splits)

lemma sync_tx_not_fatal: "sync_tx h tx w \<noteq> Fatal w'"
  by (auto simp: sync_tx_def sync_vins_not_fatal sync_vouts_not_fatal split: outcome.splits)

lemma sync_txs_not_fatal: "sync_txs h txs w \<noteq> Fatal w'"
  by (induction txs arbitrary: w) (auto simp: sync_tx_not_fatal split: outcome.splits)

lemma BTCSyncTx_never_fatal: "BTCSyncTx from height block w \<noteq> Fatal w'"
  by (simp add: BTCSyncTx_def sync_txs_not_fatal)

text \<open>
  C3 (the code departs from the claim): on a store that rejects every balance update and
  holds a balance of 10 for A, syncing the block that pays 50 to A does not stop. The run
  returns normally, the balance of A is still 10, and the transaction document has been
  written.
\<close>

theorem sync_survives_failed_balance_write:
  "BTCSyncTx 1 1 coinbase_block stale_store =
     Done () (world_of (BTCSyncTx 1 1 coinbase_block stale_store)) \<and>
   balance_idx (world_of (BTCSyncTx 1 1 coinbase_block stale_store)) =
     [(0, \<lparr>Address = ''A'', Amount = 10\<rparr>)] \<and>
   map (ts_Txid \<circ> snd) (tx_idx (world_of (BTCSyncTx 1 1 coinbase_block stale_store))) = [''t1'']"
  by (simp add: model_defs example_defs)

section \<open>The fee of a transaction\<close>

text \<open>Marking an output as spent and updating a balance leave every lookup by
  transaction id and output index with the same document, addresses and value.\<close>

lemma find_update_used:
  "map_option (\<lambda>(i, v). (i, Addresses v, Value v))
     (find (\<lambda>(i, v). TxIDBelongTo v = t \<and> Voutindex v = n)
        (update_doc j (\<lambda>d. d\<lparr>Used := x\<rparr>) ds)) =
   map_option (\<lambda>(i, v). (i, Addresses v, Value v))
     (find (\<lambda>(i, v). TxIDBelongTo v = t \<and> Voutindex v = n) ds)"
proof (induction ds)
  case Nil
  show ?case by simp
next
  case (Cons x ds)
  obtain k d where x: "x = (k, d)" by (cases x)
  show ?case using Cons.IH by (cases "k = j") (simp_all add: x)
qed

lemma found_vout_send_request [simp]: "found_vout (send_request r w) = found_vout w"
  by (rule ext, rule ext) (simp add: found_vout_def)

lemma found_vout_update_balance [simp]:
  "found_vout (snd (es_update_balance i a w)) = found_vout w"
  by (rule ext, rule ext) (simp add: found_vout_def)

lemma found_vout_update_used [simp]:
  "found_vout (es_update_vout_used i x w) = found_vout w"
  by (rule ext, rule ext)
     (simp add: found_vout_def es_update_vout_used_def send_request_def Let_def find_update_used)

lemma balance_closed_same_found: "balance_closed same_found"
  by (simp add: balance_closed_def same_found_def)

lemma found_input_found_vout:
  "found_input w vin =
     map_option (\<lambda>(i, as, v). \<lparr>awv_Address = hd as, awv_Value = v\<rparr>)
       (found_vout w (vin_Txid vin) (vin_Vout vin))"
  by (simp add: found_input_def found_vout_def FindVoutByVoutIndexAndBelongTxID_def
      split: option.splits)

lemma found_inputs_cong:
  "found_vout w' = found_vout w \<Longrightarrow> found_inputs w' vins = found_inputs w vins"
  by (induction vins) (simp_all add: found_input_found_vout split: option.splits)

lemma sync_vins_found:
  "sync_vins tx vins (a, l) u = Done (a', l') u' \<Longrightarrow>
   l' = l @ found_inputs u vins \<and> a' = a + sum_list (map awv_Value (found_inputs u vins))"
proof (induction vins arbitrary: a l u)
  case Nil
  then show ?case by simp
next
  case (Cons vin vins)
  let ?u1 = "send_request (ReqSearchVoutByIndex (vin_Txid vin) (vin_Vout vin)) u"
  show ?case
  proof (cases "fst (FindVoutByVoutIndexAndBelongTxID (vin_Txid vin) (vin_Vout vin) u)")
    case (Inl e)
    then have run: "sync_vins tx vins (a, l) ?u1 = Done (a', l') u'"
      using Cons.prems by (simp add: case_prod_beta)
    have none: "found_input u vin = None" using Inl by (simp add: found_input_def)
    have "found_inputs ?u1 vins = found_inputs u vins" by (rule found_inputs_cong) simp
    then show ?thesis using Cons.IH [OF run] none by simp
  next
    case (Inr hit)
    obtain i v where hit: "hit = (i, v)" by (cases hit)
    obtain a0 as where adr: "Addresses v = a0 # as"
      using Cons.prems Inr hit by (cases "Addresses v") (simp_all add: case_prod_beta)
    let ?u3 = "snd (UpdateBTCBlanceByVout v ''sub'' (UpdateVoutUsedField i (tx_Txid tx) vin ?u1))"
    have run: "sync_vins tx vins (a + Value v, l @ [\<lparr>awv_Address = a0, awv_Value = Value v\<rparr>]) ?u3
        = Done (a', l') u'"
      using Cons.prems Inr hit adr by (simp add: case_prod_beta split: option.splits)
    have some: "found_input u vin = Some \<lparr>awv_Address = a0, awv_Value = Value v\<rparr>"
      using Inr hit adr by (simp add: found_input_def)
    have "same_found u ?u3"
      by (rule closed_UpdateBTCBlanceByVout [OF balance_closed_same_found])
         (simp add: same_found_def UpdateVoutUsedField_def)
    then have "found_inputs ?u3 vins = found_inputs u vins"
      by (intro found_inputs_cong) (simp add: same_found_def)
    then show ?thesis using Cons.IH [OF run] some by simp
  qed
qed

lemma sync_vouts_indexed:
  "sync_vouts tx outs (a, l) u = Done (a', l') u' \<Longrightarrow>
   l' = l @ map output_summary (indexed_outputs outs) \<and>
   a' = a + sum_list (map vout_Value (indexed_outputs outs))"
proof (induction outs arbitrary: a l u)
  case Nil
  then show ?case by (simp add: indexed_outputs_def)
next
  case (Cons x xs)
  show ?case
  proof (cases "vout_Addresses x")
    case Nil
    then have run: "sync_vouts tx xs (a, l) u = Done (a', l') u'"
      using Cons.prems by (simp add: BTCVoutAddress_def)
    show ?thesis using Cons.IH [OF run] Nil by (simp add: indexed_outputs_def)
  next
    case (Cons y ys)
    let ?u1 = "es_index_vout (BTCVoutStream x (tx_Vin tx) (tx_Txid tx)) u"
    obtain k u2 where "sync_credit (vout_Addresses x) (vout_Value x) ?u1 = Done k u2"
      and run: "sync_vouts tx xs
                (a + vout_Value x, l @ [\<lparr>awv_Address = y, awv_Value = vout_Value x\<rparr>]) u2
              = Done (a', l') u'"
      using Cons.prems Cons
      by (auto simp del: sync_credit.simps simp: BTCVoutAddress_def split: outcome.splits)
    show ?thesis using Cons.IH [OF run] Cons
      by (simp add: indexed_outputs_def output_summary_def)
  qed
qed

text \<open>
  C4: when the sync of a transaction completes, the document it sends to the tx index
  (and stores, unless the index request fails) carries the transaction id, as its inputs
  the referenced outputs that the lookups find in the store as it was when the sync of
  the transaction began, as its outputs the outputs of the transaction that have an
  address, and as its fee zero for a coinbase transaction and otherwise the sum of the
  values of those found inputs minus the sum of the values of those outputs.
\<close>

theorem fee_identity:
  assumes "sync_tx blockHash tx w = Done u w'"
  shows "\<exists>r. last (requests w') = ReqIndexTx r \<and>
           (IndexTx \<in> failing w \<or> snd (last (tx_idx w')) = r) \<and>
           ts_Txid r = tx_Txid tx \<and>
           ts_Vins r = found_inputs w (tx_Vin tx) \<and>
           ts_Vouts r = map output_summary (indexed_outputs (tx_Vout tx)) \<and>
           ts_Fee r = (if is_coinbase (tx_Vin tx) then 0
                       else sum_list (map awv_Value (found_inputs w (tx_Vin tx)))
                            - sum_list (map vout_Value (indexed_outputs (tx_Vout tx))))"
proof -
  obtain a l w1 where v: "sync_vins tx (tx_Vin tx) (0, []) w = Done (a, l) w1"
    using assms by (auto simp: sync_tx_def split: outcome.splits)
  obtain b m w2 where o: "sync_vouts tx (tx_Vout tx) (0, []) w1 = Done (b, m) w2"
    using assms v by (auto simp: sync_tx_def split: outcome.splits)
  let ?r = "BTCTxStream (tx_Txid tx) blockHash
              (if is_coinbase (tx_Vin tx) then 0 else a - b) (tx_Time tx) l m"
  have w': "w' = es_index_tx ?r w2"
    using assms v o by (simp add: sync_tx_def)
  have l: "l = found_inputs w (tx_Vin tx)"
    and a: "a = sum_list (map awv_Value (found_inputs w (tx_Vin tx)))"
    using sync_vins_found [OF v] by simp_all
  have m: "m = map output_summary (indexed_outputs (tx_Vout tx))"
    and b: "b = sum_list (map vout_Value (indexed_outputs (tx_Vout tx)))"
    using sync_vouts_indexed [OF o] by simp_all
  have "same_store_env w (world_of (sync_vins tx (tx_Vin tx) (0, []) w))"
    by (rule closed_sync_vins [OF sync_closed_env]) (simp add: same_store_env_def)
  then have f1: "failing w1 = failing w" using v by (simp add: same_store_env_def)
  have "same_store_env w1 (world_of (sync_vouts tx (tx_Vout tx) (0, []) w1))"
    by (rule closed_sync_vouts [OF sync_closed_env]) (simp add: same_store_env_def)
  then have f2: "failing w2 = failing w1" using o by (simp add: same_store_env_def)
  have "last (requests w') = ReqIndexTx ?r" by (simp add: w')
  moreover have "IndexTx \<in> failing w \<or> snd (last (tx_idx w')) = ?r"
    by (simp add: w' es_index_tx_def f1 f2 Let_def)
  moreover have "ts_Txid ?r = tx_Txid tx" by (simp add: BTCTxStream_def)
  moreover have "ts_Vins ?r = found_inputs w (tx_Vin tx)" by (simp add: BTCTxStream_def l)
  moreover have "ts_Vouts ?r = map output_summary (indexed_outputs (tx_Vout tx))"
    by (simp add: BTCTxStream_def m)
  moreover have "ts_Fee ?r = (if is_coinbase (tx_Vin tx) then 0
                       else sum_list (map awv_Value (found_inputs w (tx_Vin tx)))
                            - sum_list (map vout_Value (indexed_outputs (tx_Vout tx))))"
    by (simp add: BTCTxStream_def a b)
  ultimately show ?thesis by blast
qed

theorem fee_identity_witness:
  "sync_tx ''h3'' fee_tx funded_store = Done () (world_of (sync_tx ''h3'' fee_tx funded_store)) \<and>
   \<not> is_coinbase (tx_Vin fee_tx) \<and>
   found_inputs funded_store (tx_Vin fee_tx) = [\<lparr>awv_Address = ''A'', awv_Value = 50\<rparr>] \<and>
   map output_summary (indexed_outputs (tx_Vout fee_tx)) =
     [\<lparr>awv_Address = ''B'', awv_Value = 99 / 2\<rparr>] \<and>
   (\<exists>r. last (requests (world_of (sync_tx ''h3'' fee_tx funded_store))) = ReqIndexTx r \<and>
        snd (last (tx_idx (world_of (sync_tx ''h3'' fee_tx funded_store)))) = r \<and>
        ts_Txid r = ''t3'' \<and>
        ts_Vins r = [\<lparr>awv_Address = ''A'', awv_Value = 50\<rparr>] \<and>
        ts_Vouts r = [\<lparr>awv_Address = ''B'', awv_Value = 99 / 2\<rparr>] \<and>
        ts_Fee r = 1 / 2)"
proof -
  have run: "sync_tx ''h3'' fee_tx funded_store =
      Done () (world_of (sync_tx ''h3'' fee_tx funded_store))"
    by (simp add: model_defs example_defs)
  have nc: "\<not> is_coinbase (tx_Vin fee_tx)"
    by (simp add: is_coinbase_def fee_tx_def)
  have ins: "found_inputs funded_store (tx_Vin fee_tx) = [\<lparr>awv_Address = ''A'', awv_Value = 50\<rparr>]"
    by (simp add: found_input_def FindVoutByVoutIndexAndBelongTxID_def fee_tx_def
        funded_store_def vout_A_def)
  have outs: "indexed_outputs (tx_Vout fee_tx) =
      [\<lparr>vout_Value = 99 / 2, vout_N = 0, vout_Addresses = [''B'']\<rparr>]"
    by (simp add: indexed_outputs_def fee_tx_def)
  have sums: "map output_summary (indexed_outputs (tx_Vout fee_tx)) =
      [\<lparr>awv_Address = ''B'', awv_Value = 99 / 2\<rparr>]"
    by (simp add: outs output_summary_def)
  have ok: "IndexTx \<notin> failing funded_store" by (simp add: funded_store_def)
  have id: "tx_Txid fee_tx = ''t3''" by (simp add: fee_tx_def)
  from fee_identity [OF run] obtain r where
    r: "last (requests (world_of (sync_tx ''h3'' fee_tx funded_store))) = ReqIndexTx r"
      "IndexTx \<in> failing funded_store \<or>
       snd (last (tx_idx (world_of (sync_tx ''h3'' fee_tx funded_store)))) = r"
      "ts_Txid r = tx_Txid fee_tx"
      "ts_Vins r = found_inputs funded_store (tx_Vin fee_tx)"
      "ts_Vouts r = map output_summary (indexed_outputs (tx_Vout fee_tx))"
      "ts_Fee r = (if is_coinbase (tx_Vin fee_tx) then 0
                   else sum_list (map awv_Value (found_inputs funded_store (tx_Vin fee_tx)))
                        - sum_list (map vout_Value (indexed_outputs (tx_Vout fee_tx))))"
    by blast
  have fee: "ts_Fee r = 1 / 2" using r(6) nc by (simp add: ins outs)
  have "snd (last (tx_idx (world_of (sync_tx ''h3'' fee_tx funded_store)))) = r"
    using r(2) ok by simp
  then show ?thesis using run nc ins sums r(1,3,4,5) fee id by auto
qed

text \<open>The document of a coinbase transaction, whose one input is not looked for in vain:
  it has no found input and its fee is 0, not minus the 50 it pays.\<close>

lemma coinbase_tx_document:
  "map snd (tx_idx (world_of (sync_tx ''h1'' coinbase_tx empty_store))) =
     [\<lparr>ts_Txid = ''t1'', ts_BlockHash = ''h1'', ts_Fee = 0, ts_Time = 1, ts_Vins = [],
       ts_Vouts = [\<lparr>awv_Address = ''A'', awv_Value = 50\<rparr>]\<rparr>]"
  by (simp add: model_defs example_defs)

lemma fee_tx_fee:
  "map (ts_Fee \<circ> snd) (tx_idx (world_of (sync_tx ''h3'' fee_tx funded_store))) = [1 / 2]"
  by (simp add: model_defs example_defs)

section \<open>Failures inside a rollback\<close>

text \<open>
  C2, as stated, fails: in \<open>partial_store\<close> the output of the first transaction of the
  block at height 7 cannot be located. The rollback prints that, goes on to the second
  transaction, deletes its output, debits B, and returns no error.
\<close>

theorem rollback_continues_after_missing_output:
  "fst (RollbackTxVoutBalanceTypeByBlockHeight 7 partial_store) = None \<and>
   vout_idx (snd (RollbackTxVoutBalanceTypeByBlockHeight 7 partial_store)) = [] \<and>
   balance_idx (snd (RollbackTxVoutBalanceTypeByBlockHeight 7 partial_store)) =
     [(4, \<lparr>Address = ''B'', Amount = 0\<rparr>)] \<and>
   requests (snd (RollbackTxVoutBalanceTypeByBlockHeight 7 partial_store)) =
     [ReqGetBlock 7, ReqDeleteTxByHash ''h2'', ReqSearchVoutByIndex ''t1'' 0,
      ReqSearchVoutByUsed ''t1'' ''t2'' 0, ReqSearchVoutByIndex ''t2'' 0, ReqDeleteVout 3,
      ReqSearchBalance ''B'', ReqUpdateBalance 4 0]"
  by (simp add: model_defs example_defs)

lemma rollback_vouts_visits:
  "vout \<in> set vouts \<Longrightarrow>
   ReqSearchVoutByIndex (tx_Txid tx) (vout_N vout) \<in> set (requests (rollback_vouts tx vouts w))"
proof (induction vouts arbitrary: w)
  case Nil
  then show ?case by simp
next
  case (Cons x xs)
  note k = closed_rollback_vouts [OF rollback_closed_log_has, unfolded log_has_def]
  note kb = closed_UpdateBTCBlanceByVout
    [OF rollback_closed_balance [OF rollback_closed_log_has], unfolded log_has_def]
  have step: "\<exists>W. rollback_vouts tx (x # xs) w = rollback_vouts tx xs W \<and>
      ReqSearchVoutByIndex (tx_Txid tx) (vout_N x) \<in> set (requests W)"
    by (auto simp: case_prod_beta split: sum.splits intro!: kb)
  then obtain W where W: "rollback_vouts tx (x # xs) w = rollback_vouts tx xs W"
    "ReqSearchVoutByIndex (tx_Txid tx) (vout_N x) \<in> set (requests W)"
    by blast
  show ?case
  proof (cases "vout = x")
    case True
    then show ?thesis unfolding W(1) using W(2) by (simp add: k)
  next
    case False
    then have "vout \<in> set xs" using Cons.prems by simp
    then show ?thesis unfolding W(1) by (rule Cons.IH)
  qed
qed

lemma rollback_txs_visits:
  "tx \<in> set txs \<Longrightarrow> vout \<in> set (tx_Vout tx) \<Longrightarrow>
   ReqSearchVoutByIndex (tx_Txid tx) (vout_N vout) \<in> set (requests (rollback_txs txs w))"
proof (induction txs arbitrary: w)
  case Nil
  then show ?case by simp
next
  case (Cons x xs)
  note k = closed_rollback_txs [OF rollback_closed_log_has, unfolded log_has_def]
  show ?case
  proof (cases "tx = x")
    case True
    then show ?thesis using Cons.prems(2) by (auto intro!: k rollback_vouts_visits)
  next
    case False
    then have "tx \<in> set xs" using Cons.prems(1) by simp
    then show ?thesis using Cons.prems(2) by (simp add: Cons.IH)
  qed
qed

lemma rollback_error_cases:
  "fst (RollbackTxVoutBalanceTypeByBlockHeight height w) =
     (if GetBlock \<in> failing w then Some StoreError
      else case map_of (block_idx w) height of
             None \<Rightarrow> Some BlockNotFound
           | Some b \<Rightarrow> if DeleteByQueryTx \<in> failing w then Some DeleteTxstreamFail else None)"
  by (simp add: RollbackTxVoutBalanceTypeByBlockHeight_def FindBTCBlockByHeight_def
      DeleteTxstreamByBlockHash_def Let_def split: option.splits)

text \<open>
  C2, amended: \<open>RollbackTxVoutBalanceTypeByBlockHeight\<close> returns an error only when the
  block cannot be fetched or the delete-by-query of the block's transaction documents
  fails. When both succeed it returns no error, whatever happens in the steps for the
  inputs and outputs: a lookup that fails is printed and passed over, and every output of
  every transaction of the block is still looked up.
\<close>

theorem rollback_skips_failed_substeps:
  assumes "GetBlock \<notin> failing w" and "map_of (block_idx w) height = Some b"
    and "DeleteByQueryTx \<notin> failing w"
  shows "fst (RollbackTxVoutBalanceTypeByBlockHeight height w) = None \<and>
         (\<forall>tx\<in>set (blk_Tx b). \<forall>vout\<in>set (tx_Vout tx).
            ReqSearchVoutByIndex (tx_Txid tx) (vout_N vout)
              \<in> set (requests (snd (RollbackTxVoutBalanceTypeByBlockHeight height w))))"
  using assms
  by (simp add: RollbackTxVoutBalanceTypeByBlockHeight_def FindBTCBlockByHeight_def
      DeleteTxstreamByBlockHash_def Let_def rollback_txs_visits)

theorem rollback_skips_failed_substeps_witness:
  "GetBlock \<notin> failing partial_store \<and> map_of (block_idx partial_store) 7 = Some spend_block \<and>
   DeleteByQueryTx \<notin> failing partial_store \<and>
   fst (RollbackTxVoutBalanceTypeByBlockHeight 7 partial_store) = None \<and>
   ReqSearchVoutByIndex ''t1'' 0
     \<in> set (requests (snd (RollbackTxVoutBalanceTypeByBlockHeight 7 partial_store))) \<and>
   ReqSearchVoutByIndex ''t2'' 0
     \<in> set (requests (snd (RollbackTxVoutBalanceTypeByBlockHeight 7 partial_store)))"
  using rollback_skips_failed_substeps [of partial_store 7 spend_block]
  by (simp add: partial_store_def spend_block_def coinbase_tx_def spend_tx_def)

section \<open>The driver's unit of work\<close>

lemma Rollback_first_request:
  "extends_log not_flush (send_request (ReqGetBlock h) w)
     (snd (RollbackTxVoutBalanceTypeByBlockHeight h w))"
  by (auto simp: RollbackTxVoutBalanceTypeByBlockHeight_def case_prod_beta
      FindBTCBlockByHeight_def
      split: sum.splits option.splits
      intro!: closed_rollback_txs [OF rollback_closed_not_flush]
      intro: extends_log_snoc [OF extends_log_refl])

lemma unit_of_work_requests:
  "requests (world_of (BTCRollBackAndSyncTx frm height block w)) =
   requests (world_of (BTCSyncTx frm height block
     (if height <s frm + 5 then snd (RollbackTxVoutBalanceTypeByBlockHeight height w) else w)))"
  by (simp add: BTCRollBackAndSyncTx_def Let_def split: outcome.splits)

text \<open>
  C5, as stated, fails where \<open>from + 5\<close> overflows \<open>int32\<close>: for \<open>from = height =
  2147483647\<close> the height is below \<open>from + 5\<close>, but the sum wraps to a negative number
  and the unit of work sends no request for the block, so no rollback takes place.
\<close>

theorem reorg_window_overflow:
  "sint (2147483647 :: int32) < sint (2147483647 :: int32) + 5 \<and>
   ReqGetBlock 2147483647 \<notin> set (requests (world_of
      (BTCRollBackAndSyncTx 2147483647 2147483647 coinbase_block empty_store)))"
  by (simp add: model_defs example_defs)

text \<open>
  C5, amended: for \<open>from \<le> 2147483642\<close>, where \<open>from + 5\<close> does not overflow, the unit
  of work rolls back (its first new request fetches the block at \<open>height\<close>) exactly when
  \<open>height < from + 5\<close>; in either case the sync then runs, on the rolled-back store or on
  the store as given, and its completion is signalled.
\<close>

theorem reorg_window:
  assumes "sint frm \<le> 2147483642"
  shows "(ReqGetBlock height \<in> set (drop (length (requests w))
            (requests (world_of (BTCRollBackAndSyncTx frm height block w)))))
           = (sint height < sint frm + 5) \<and>
         BTCRollBackAndSyncTx frm height block w =
           (case BTCSyncTx frm height block
                   (if sint height < sint frm + 5
                    then snd (RollbackTxVoutBalanceTypeByBlockHeight height w) else w) of
              Done u w2 \<Rightarrow> Done () (w2\<lparr>chan := chan w2 @ [True]\<rparr>)
            | Fatal w2 \<Rightarrow> Fatal w2
            | Panic w2 \<Rightarrow> Panic w2)"
proof -
  have c: "height <s frm + 5 \<longleftrightarrow> sint height < sint frm + 5"
    by (simp add: word_sless_alt sint_add5 [OF assms])
  let ?w1 = "if height <s frm + 5
             then snd (RollbackTxVoutBalanceTypeByBlockHeight height w) else w"
  let ?w2 = "world_of (BTCSyncTx frm height block ?w1)"
  have "extends_log sync_request ?w1 ?w2"
    by (rule closed_BTCSyncTx [OF sync_closed_log]) simp
  then obtain rs where rs: "requests ?w2 = requests ?w1 @ rs" "list_all sync_request rs"
    by (auto simp: extends_log_iff)
  have nog: "ReqGetBlock height \<notin> set rs"
    using rs(2) by (auto simp: list_all_iff)
  have mem: "(ReqGetBlock height \<in> set (drop (length (requests w)) (requests ?w2)))
               = (sint height < sint frm + 5)"
  proof (cases "height <s frm + 5")
    case True
    obtain qs where "requests (snd (RollbackTxVoutBalanceTypeByBlockHeight height w)) =
        requests w @ ReqGetBlock height # qs"
      using Rollback_first_request [of height w] by (auto simp: extends_log_iff)
    then show ?thesis using True rs c by simp
  next
    case False
    then show ?thesis using rs nog c by simp
  qed
  have eq: "BTCRollBackAndSyncTx frm height block w =
           (case BTCSyncTx frm height block
                   (if sint height < sint frm + 5
                    then snd (RollbackTxVoutBalanceTypeByBlockHeight height w) else w) of
              Done u w2 \<Rightarrow> Done () (w2\<lparr>chan := chan w2 @ [True]\<rparr>)
            | Fatal w2 \<Rightarrow> Fatal w2
            | Panic w2 \<Rightarrow> Panic w2)"
    by (simp add: BTCRollBackAndSyncTx_def Let_def c split: outcome.splits)
  have mem': "(ReqGetBlock height \<in> set (drop (length (requests w))
            (requests (world_of (BTCRollBackAndSyncTx frm height block w)))))
           = (sint height < sint frm + 5)"
    unfolding unit_of_work_requests by (rule mem)
  show ?thesis by (rule conjI [OF mem' eq])
qed

theorem reorg_window_witness:
  "sint (100 :: int32) \<le> 2147483642 \<and>
   ReqGetBlock 100 \<in> set (drop (length (requests empty_store))
      (requests (world_of (BTCRollBackAndSyncTx 100 100 coinbase_block empty_store)))) \<and>
   ReqGetBlock 104 \<in> set (drop (length (requests empty_store))
      (requests (world_of (BTCRollBackAndSyncTx 100 104 coinbase_block empty_store)))) \<and>
   ReqGetBlock 105 \<notin> set (drop (length (requests empty_store))
      (requests (world_of (BTCRollBackAndSyncTx 100 105 coinbase_block empty_store))))"
proof -
  have h: "sint (100 :: int32) \<le> 2147483642" by simp
  show ?thesis
    using h reorg_window [OF h, of 100 empty_store coinbase_block, THEN conjunct1]
      reorg_window [OF h, of 104 empty_store coinbase_block, THEN conjunct1]
      reorg_window [OF h, of 105 empty_store coinbase_block, THEN conjunct1]
    by simp
qed

text \<open>
  C6 (the code departs from the claim): the unit of work never sends a flush request.
  \<open>client.Flush()\<close> builds the request and the source does not call its \<open>Do\<close>, as it
  does for every other request. Whatever the inputs, no request that the unit of work adds
  to the log is a flush, and when the sync returns the signal is sent all the same.
\<close>

theorem unit_of_work_sends_no_flush:
  "list_all not_flush (drop (length (requests w))
      (requests (world_of (BTCRollBackAndSyncTx frm height block w)))) \<and>
   ((\<exists>w'. BTCRollBackAndSyncTx frm height block w = Done () w' \<and> chan w' = chan w @ [True]) \<or>
    (\<exists>w'. BTCRollBackAndSyncTx frm height block w = Panic w'))"
proof -
  let ?w1 = "if height <s frm + 5
             then snd (RollbackTxVoutBalanceTypeByBlockHeight height w) else w"
  let ?w2 = "world_of (BTCSyncTx frm height block ?w1)"
  have a: "extends_log not_flush w ?w1"
    by (simp add: closed_Rollback [OF rollback_closed_not_flush])
  have "extends_log not_flush w ?w2"
    by (rule closed_BTCSyncTx [OF sync_closed_not_flush]) (rule a)
  then have 1: "list_all not_flush (drop (length (requests w))
      (requests (world_of (BTCRollBackAndSyncTx frm height block w))))"
    by (simp only: unit_of_work_requests extends_log_def)
  have b: "same_store_env w ?w1"
    using closed_Rollback [OF rollback_closed_env, of w w height]
    by (simp add: same_store_env_def)
  have "same_store_env w ?w2"
    by (rule closed_BTCSyncTx [OF sync_closed_env]) (rule b)
  then have ch: "chan ?w2 = chan w" by (simp add: same_store_env_def)
  have 2: "(\<exists>w'. BTCRollBackAndSyncTx frm height block w = Done () w' \<and> chan w' = chan w @ [True]) \<or>
    (\<exists>w'. BTCRollBackAndSyncTx frm height block w = Panic w')"
  proof (cases "BTCSyncTx frm height block ?w1")
    case (Done u w2)
    then show ?thesis using ch by (simp add: BTCRollBackAndSyncTx_def Let_def)
  next
    case (Fatal w2)
    then show ?thesis using BTCSyncTx_never_fatal by blast
  next
    case (Panic w2)
    then show ?thesis by (simp add: BTCRollBackAndSyncTx_def Let_def)
  qed
  show ?thesis using 1 2 by blast
qed

text \<open>For instance, at height 100 with \<open>from = 100\<close> on the empty store: the block is
  requested (and not found), the coinbase transaction is synced, and the signal is sent.\<close>

lemma unit_of_work_example:
  "BTCRollBackAndSyncTx 100 100 coinbase_block empty_store =
     Done () (world_of (BTCRollBackAndSyncTx 100 100 coinbase_block empty_store)) \<and>
   chan (world_of (BTCRollBackAndSyncTx 100 100 coinbase_block empty_store)) = [True] \<and>
   requests (world_of (BTCRollBackAndSyncTx 100 100 coinbase_block empty_store)) =
     [ReqGetBlock 100, ReqSearchVoutByIndex [] 0, ReqIndexVout vout_A, ReqSearchBalance ''A'',
      ReqIndexBalance (Some \<lparr>Address = ''A'', Amount = 50\<rparr>),
      ReqIndexTx \<lparr>ts_Txid = ''t1'', ts_BlockHash = ''h1'', ts_Fee = 0, ts_Time = 1,
        ts_Vins = [], ts_Vouts = [\<lparr>awv_Address = ''A'', awv_Value = 50\<rparr>]\<rparr>]"
  by (simp add: model_defs example_defs)



section \<open>The order of credits and debits within a block\<close>

lemma update_doc_addresses:
  assumes "\<And>d. Address (f d) = Address d"
  shows "map (\<lambda>(i, b). Address b) (update_doc i f ds) = map (\<lambda>(i, b). Address b) ds"
proof (induction ds)
  case Nil
  show ?case by simp
next
  case (Cons x ds)
  obtain j d where x: "x = (j, d)" by (cases x)
  show ?case using Cons.IH by (simp add: x assms)
qed

lemma es_update_balance_addresses [simp]:
  "balance_addresses (snd (es_update_balance i a w)) = balance_addresses w"
  by (simp add: es_update_balance_def Let_def balance_addresses_def update_doc_addresses
      send_request_def)

lemma es_index_balance_addresses:
  "X \<in> set (balance_addresses w) \<Longrightarrow>
   X \<in> set (balance_addresses (es_index_balance b w))"
  by (auto simp: es_index_balance_def Let_def balance_addresses_def split: option.splits)

lemma balance_addresses_simps [simp]:
  "balance_addresses (send_request r w) = balance_addresses w"
  "balance_addresses (es_index_vout v w) = balance_addresses w"
  "balance_addresses (es_index_tx t w) = balance_addresses w"
  "balance_addresses (es_update_vout_used i u w) = balance_addresses w"
  "balance_addresses (es_delete_vout i w) = balance_addresses w"
  by (simp_all add: balance_addresses_def)

lemma sync_closed_has_balance: "sync_closed (has_balance X)"
  by (simp add: sync_closed_def balance_closed_def has_balance_def
      es_update_balance_addresses es_index_balance_addresses)

lemma find_balance_Some:
  "find (\<lambda>(i, b). Address b = a) ds = Some (i, b) \<Longrightarrow>
   a \<in> set (map (\<lambda>(i, b). Address b) ds)"
  by (induction ds) (auto split: if_splits)

lemma sync_credit_failing [simp]: "failing (world_of (sync_credit as v w)) = failing w"
  using closed_sync_credit [OF sync_closed_env, of w w as v] by (simp add: same_store_env_def)

lemma sync_credit_plants:
  "SearchBalance \<notin> failing w \<Longrightarrow> IndexBalance \<notin> failing w \<Longrightarrow> X \<in> set as \<Longrightarrow>
   X \<in> set (balance_addresses ((world_of (sync_credit as v w))))"
proof (induction as arbitrary: w)
  case Nil
  then show ?case by simp
next
  case (Cons a as)
  note k = closed_sync_credit [OF sync_closed_has_balance, unfolded has_balance_def]
  let ?w1 = "send_request (ReqSearchBalance a) w"
  show ?case
  proof (cases "find (\<lambda>(i, b). Address b = a) (balance_idx w)")
    case None
    let ?W = "es_index_balance (Some \<lparr>Address = a, Amount = v\<rparr>) ?w1"
    have eq: "sync_credit (a # as) v w = sync_credit as v ?W"
      using None Cons.prems(1) by (simp add: FindBalanceWithAddressOrInitWithAmount_def)
    have here: "a \<in> set (balance_addresses (?W))"
      using Cons.prems(2) by (simp add: es_index_balance_def Let_def balance_addresses_def)
    show ?thesis
    proof (cases "X = a")
      case True
      then show ?thesis unfolding eq using here by (simp add: k)
    next
      case False
      then have "X \<in> set as" using Cons.prems(3) by simp
      then show ?thesis unfolding eq using Cons.prems(1,2) by (intro Cons.IH) simp_all
    qed
  next
    case (Some hit)
    obtain i b where hit: "hit = (i, b)" by (cases hit)
    let ?W = "snd (UpdateBTCBlance ''add'' i b v ?w1)"
    have eq: "sync_credit (a # as) v w = sync_credit as v ?W"
      using Some hit Cons.prems(1)
      by (simp add: FindBalanceWithAddressOrInitWithAmount_def case_prod_beta)
    have "a \<in> set (balance_addresses (w))"
      using Some hit find_balance_Some [of a "balance_idx w" i b]
      by (simp add: balance_addresses_def)
    then have here: "a \<in> set (balance_addresses (?W))"
      by (simp add: UpdateBTCBlance_def es_update_balance_addresses)
    show ?thesis
    proof (cases "X = a")
      case True
      then show ?thesis unfolding eq using here by (simp add: k)
    next
      case False
      then have "X \<in> set as" using Cons.prems(3) by simp
      then show ?thesis unfolding eq using Cons.prems(1,2) by (intro Cons.IH) simp_all
    qed
  qed
qed

lemma sync_vouts_plants:
  "SearchBalance \<notin> failing w \<Longrightarrow> IndexBalance \<notin> failing w \<Longrightarrow>
   out \<in> set outs \<Longrightarrow> X \<in> set (vout_Addresses out) \<Longrightarrow>
   sync_vouts tx outs (a, l) w = Done acc w' \<Longrightarrow>
   X \<in> set (balance_addresses (w'))"
proof (induction outs arbitrary: a l w)
  case Nil
  then show ?case by simp
next
  case (Cons x xs)
  note k = closed_sync_vouts [OF sync_closed_has_balance, unfolded has_balance_def]
  show ?case
  proof (cases "vout_Addresses x")
    case Nil
    then have eq: "sync_vouts tx (x # xs) (a, l) w = sync_vouts tx xs (a, l) w"
      by (simp add: BTCVoutAddress_def)
    have "out \<noteq> x" using Cons.prems(4) Nil by auto
    then have "out \<in> set xs" using Cons.prems(3) by simp
    then show ?thesis using Cons.prems Cons.IH [of w a l] unfolding eq by simp
  next
    case (Cons y ys)
    let ?w1 = "es_index_vout (BTCVoutStream x (tx_Vin tx) (tx_Txid tx)) w"
    obtain u w2 where c: "sync_credit (vout_Addresses x) (vout_Value x) ?w1 = Done u w2"
      and r: "sync_vouts tx xs
                (a + vout_Value x, l @ [\<lparr>awv_Address = y, awv_Value = vout_Value x\<rparr>]) w2
              = Done acc w'"
      using Cons.prems(5) Cons
      by (auto simp del: sync_credit.simps simp: BTCVoutAddress_def split: outcome.splits)
    have w2: "w2 = world_of (sync_credit (vout_Addresses x) (vout_Value x) ?w1)"
      using c by simp
    have f2: "failing w2 = failing w" unfolding w2 by simp
    show ?thesis
    proof (cases "out = x")
      case True
      have "X \<in> set (balance_addresses (w2))"
        unfolding w2 using Cons.prems(1,2,4) True by (intro sync_credit_plants) simp_all
      then have "X \<in> set (balance_addresses ((world_of (sync_vouts tx xs
                (a + vout_Value x, l @ [\<lparr>awv_Address = y, awv_Value = vout_Value x\<rparr>]) w2))))"
        by (rule k)
      then show ?thesis using r by simp
    next
      case False
      then have "out \<in> set xs" using Cons.prems(3) by simp
      then show ?thesis using Cons.prems(1,2,4) f2 r
        by (intro Cons.IH [of w2]) simp_all
    qed
  qed
qed

lemma sync_tx_plants:
  assumes "SearchBalance \<notin> failing w" and "IndexBalance \<notin> failing w"
    and "out \<in> set (tx_Vout tx)" and "X \<in> set (vout_Addresses out)"
    and "sync_tx h tx w = Done u w'"
  shows "X \<in> set (balance_addresses (w'))"
proof -
  obtain a l w1 where v: "sync_vins tx (tx_Vin tx) (0, []) w = Done (a, l) w1"
    using assms(5) by (auto simp: sync_tx_def split: outcome.splits)
  obtain b m w2 where o: "sync_vouts tx (tx_Vout tx) (0, []) w1 = Done (b, m) w2"
    using assms(5) v by (auto simp: sync_tx_def split: outcome.splits)
  have "same_store_env w (world_of (sync_vins tx (tx_Vin tx) (0, []) w))"
    by (rule closed_sync_vins [OF sync_closed_env]) (simp add: same_store_env_def)
  then have f1: "failing w1 = failing w" using v by (simp add: same_store_env_def)
  have "X \<in> set (balance_addresses (w2))"
    using assms(1,2) f1 by (intro sync_vouts_plants [OF _ _ assms(3,4) o]) simp_all
  then show ?thesis using assms(5) v o by (simp add: sync_tx_def) auto
qed

lemma sync_txs_append:
  "sync_txs h (xs @ ys) w =
     (case sync_txs h xs w of
        Done u w1 \<Rightarrow> sync_txs h ys w1
      | Fatal w1 \<Rightarrow> Fatal w1
      | Panic w1 \<Rightarrow> Panic w1)"
  by (induction xs arbitrary: w) (auto split: outcome.splits)

lemma sync_txs_append_Done:
  "sync_txs h (xs @ ys) w = Done u wz \<Longrightarrow>
   \<exists>w1. sync_txs h xs w = Done () w1 \<and> sync_txs h ys w1 = Done u wz"
  by (auto simp: sync_txs_append split: outcome.splits)

lemma sync_txs_Cons_Done:
  "sync_txs h (x # xs) w = Done u wz \<Longrightarrow>
   \<exists>w1. sync_tx h x w = Done () w1 \<and> sync_txs h xs w1 = Done u wz"
  by (auto split: outcome.splits)

lemma find_balance_of_address:
  "X \<in> set (map (\<lambda>(i, b). Address b) ds) \<Longrightarrow>
   \<exists>j b. find (\<lambda>(i, b). Address b = X) ds = Some (j, b)"
proof (induction ds)
  case Nil
  then show ?case by simp
next
  case (Cons x ds)
  obtain k d where x: "x = (k, d)" by (cases x)
  show ?case using Cons by (cases "Address d = X") (simp_all add: x)
qed

lemma credit_request_cong:
  "balance_idx u' = balance_idx u \<Longrightarrow> float64 u' = float64 u \<Longrightarrow>
   credit_request X v u' = credit_request X v u"
  by (simp add: credit_request_def split: option.splits)

lemma sync_log:
  "\<exists>rs. requests (world_of (sync_vins tx vins (a, l) w)) = requests w @ rs"
  "\<exists>rs. requests (world_of (sync_credit as v w)) = requests w @ rs"
  "\<exists>rs. requests (world_of (sync_vouts tx outs (a, l) w)) = requests w @ rs"
  "\<exists>rs. requests (world_of (sync_txs h txs w)) = requests w @ rs"
proof -
  have "extends_log sync_request w (world_of (sync_vins tx vins (a, l) w))"
    by (rule closed_sync_vins [OF sync_closed_log]) simp
  then show "\<exists>rs. requests (world_of (sync_vins tx vins (a, l) w)) = requests w @ rs"
    by (auto simp: extends_log_iff)
  have "extends_log sync_request w (world_of (sync_credit as v w))"
    by (rule closed_sync_credit [OF sync_closed_log]) simp
  then show "\<exists>rs. requests (world_of (sync_credit as v w)) = requests w @ rs"
    by (auto simp: extends_log_iff)
  have "extends_log sync_request w (world_of (sync_vouts tx outs (a, l) w))"
    by (rule closed_sync_vouts [OF sync_closed_log]) simp
  then show "\<exists>rs. requests (world_of (sync_vouts tx outs (a, l) w)) = requests w @ rs"
    by (auto simp: extends_log_iff)
  have "extends_log sync_request w (world_of (sync_txs h txs w))"
    by (rule closed_sync_txs [OF sync_closed_log]) simp
  then show "\<exists>rs. requests (world_of (sync_txs h txs w)) = requests w @ rs"
    by (auto simp: extends_log_iff)
qed

lemma sync_env:
  "same_store_env w (world_of (sync_vins tx vins (a, l) w))"
  "same_store_env w (world_of (sync_vouts tx outs (a, l) w))"
  "same_store_env w (world_of (sync_txs h txs w))"
  by (rule closed_sync_vins [OF sync_closed_env] closed_sync_vouts [OF sync_closed_env]
        closed_sync_txs [OF sync_closed_env], simp add: same_store_env_def)+

text \<open>The credit of an output that pays one address: the insert of the output, the
  balance search, and the credit request.\<close>

lemma sync_credit_sole:
  assumes "SearchBalance \<notin> failing u"
  shows "\<exists>u'. sync_credit [X] v u = Done () u' \<and>
           requests u' = requests u @ [ReqSearchBalance X, credit_request X v u]"
proof (cases "find (\<lambda>(i, b). Address b = X) (balance_idx u)")
  case None
  then show ?thesis using assms
    by (simp add: FindBalanceWithAddressOrInitWithAmount_def credit_request_def)
next
  case (Some hit)
  obtain j b where hit: "hit = (j, b)" by (cases hit)
  show ?thesis using Some hit assms
    by (simp add: FindBalanceWithAddressOrInitWithAmount_def credit_request_def
        UpdateBTCBlance_def Let_def)
qed

lemma sync_vins_append:
  "sync_vins tx (xs @ ys) (a, l) u =
     (case sync_vins tx xs (a, l) u of
        Done acc1 u1 \<Rightarrow> sync_vins tx ys acc1 u1
      | Fatal u1 \<Rightarrow> Fatal u1
      | Panic u1 \<Rightarrow> Panic u1)"
  by (induction xs arbitrary: a l u)
     (auto simp: case_prod_beta split: sum.splits list.splits option.splits outcome.splits)

lemma sync_vouts_append:
  "sync_vouts tx (xs @ ys) (a, l) u =
     (case sync_vouts tx xs (a, l) u of
        Done acc1 u1 \<Rightarrow> sync_vouts tx ys acc1 u1
      | Fatal u1 \<Rightarrow> Fatal u1
      | Panic u1 \<Rightarrow> Panic u1)"
  by (induction xs arbitrary: a l u)
     (auto simp del: sync_credit.simps split: sum.splits list.splits outcome.splits)

lemma sync_vouts_credit_head:
  assumes "sync_vouts tx (out # outs) (a, l) u = Done acc' u'"
    and "vout_Addresses out = [X]"
    and "SearchBalance \<notin> failing u"
  shows "\<exists>rest. requests u' = requests u @
        [ReqIndexVout (BTCVoutStream out (tx_Vin tx) (tx_Txid tx)), ReqSearchBalance X,
         credit_request X (vout_Value out) u] @ rest"
proof -
  let ?r = "BTCVoutStream out (tx_Vin tx) (tx_Txid tx)"
  let ?u1 = "es_index_vout ?r u"
  let ?acc = "(a + vout_Value out, l @ [\<lparr>awv_Address = X, awv_Value = vout_Value out\<rparr>])"
  obtain k u2 where c: "sync_credit [X] (vout_Value out) ?u1 = Done k u2"
    and run: "sync_vouts tx outs ?acc u2 = Done acc' u'"
    using assms(1,2)
    by (auto simp del: sync_credit.simps simp: BTCVoutAddress_def split: outcome.splits)
  have s1: "SearchBalance \<notin> failing ?u1" using assms(3) by simp
  from sync_credit_sole [OF s1, of X "vout_Value out"] c
  have r2: "requests u2 = requests ?u1 @
      [ReqSearchBalance X, credit_request X (vout_Value out) ?u1]"
    by (auto simp del: sync_credit.simps)
  have cr: "credit_request X (vout_Value out) ?u1 = credit_request X (vout_Value out) u"
    by (rule credit_request_cong) simp_all
  obtain rs where rs: "requests u' = requests u2 @ rs"
    using sync_log(3) [of tx outs "fst ?acc" "snd ?acc" u2] run by auto
  have "requests u' = requests u @
      [ReqIndexVout ?r, ReqSearchBalance X, credit_request X (vout_Value out) u] @ rs"
    using rs r2 cr by simp
  then show ?thesis by blast
qed

text \<open>The sync of the outputs of a transaction sends the insert of each output that has
  an address.\<close>

lemma sync_vouts_index_log:
  "sync_vouts tx outs (a, l) u = Done acc' u' \<Longrightarrow>
   \<exists>rs. requests u' = requests u @ rs \<and>
        set (map (\<lambda>vout. ReqIndexVout (BTCVoutStream vout (tx_Vin tx) (tx_Txid tx)))
               (indexed_outputs outs)) \<subseteq> set rs"
proof (induction outs arbitrary: a l u)
  case Nil
  then show ?case by (simp add: indexed_outputs_def)
next
  case (Cons x xs)
  show ?case
  proof (cases "vout_Addresses x")
    case Nil
    then have run: "sync_vouts tx xs (a, l) u = Done acc' u'"
      using Cons.prems by (simp add: BTCVoutAddress_def)
    show ?thesis using Cons.IH [OF run] Nil by (simp add: indexed_outputs_def)
  next
    case (Cons y ys)
    let ?r = "BTCVoutStream x (tx_Vin tx) (tx_Txid tx)"
    let ?u1 = "es_index_vout ?r u"
    let ?acc = "(a + vout_Value x, l @ [\<lparr>awv_Address = y, awv_Value = vout_Value x\<rparr>])"
    obtain k u2 where c: "sync_credit (vout_Addresses x) (vout_Value x) ?u1 = Done k u2"
      and run: "sync_vouts tx xs ?acc u2 = Done acc' u'"
      using Cons.prems Cons
      by (auto simp del: sync_credit.simps simp: BTCVoutAddress_def split: outcome.splits)
    obtain rs1 where rs1: "requests u2 = requests ?u1 @ rs1"
      using sync_log(2) [of "vout_Addresses x" "vout_Value x" ?u1] c by auto
    from Cons.IH [OF run] obtain rs2 where rs2: "requests u' = requests u2 @ rs2"
      "set (map (\<lambda>vout. ReqIndexVout (BTCVoutStream vout (tx_Vin tx) (tx_Txid tx)))
             (indexed_outputs xs)) \<subseteq> set rs2" by blast
    have "requests u' = requests u @ (ReqIndexVout ?r # rs1 @ rs2)"
      using rs1 rs2(1) by simp
    moreover have "set (map (\<lambda>vout. ReqIndexVout (BTCVoutStream vout (tx_Vin tx) (tx_Txid tx)))
             (indexed_outputs (x # xs))) \<subseteq> set (ReqIndexVout ?r # rs1 @ rs2)"
      using rs2(2) Cons by (auto simp: indexed_outputs_def)
    ultimately show ?thesis by blast
  qed
qed

text \<open>The first input of a transaction, when the output it refers to is found and pays
  one address that has a balance document: the lookup, the spent mark, the balance
  search, and the debit of that document.\<close>

lemma sync_vins_debit_log:
  assumes "sync_vins tx (vin # vins) (a, l) u = Done acc' u'"
    and "fst (FindVoutByVoutIndexAndBelongTxID (vin_Txid vin) (vin_Vout vin) u) = Inr (i, rec)"
    and "Addresses rec = [X]"
    and "SearchBalance \<notin> failing u"
    and "find (\<lambda>(i, b). Address b = X) (balance_idx u) = Some (j, b)"
  shows "\<exists>rs. requests u' = requests u @
      [ReqSearchVoutByIndex (vin_Txid vin) (vin_Vout vin),
       ReqUpdateVoutUsed i (Some \<lparr>used_Txid = tx_Txid tx, used_VinIndex = vin_Vout vin\<rparr>),
       ReqSearchBalance X,
       ReqUpdateBalance j (float64 u (Amount b - Value rec))] @ rs"
proof -
  let ?u1 = "send_request (ReqSearchVoutByIndex (vin_Txid vin) (vin_Vout vin)) u"
  let ?u2 = "UpdateVoutUsedField i (tx_Txid tx) vin ?u1"
  let ?u3 = "snd (UpdateBTCBlanceByVout rec ''sub'' ?u2)"
  let ?acc = "(a + Value rec, l @ [\<lparr>awv_Address = X, awv_Value = Value rec\<rparr>])"
  have run: "sync_vins tx vins ?acc ?u3 = Done acc' u'"
    using assms(1,2,3) by (simp add: case_prod_beta split: option.splits)
  have r3: "requests ?u3 = requests u @
      [ReqSearchVoutByIndex (vin_Txid vin) (vin_Vout vin),
       ReqUpdateVoutUsed i (Some \<lparr>used_Txid = tx_Txid tx, used_VinIndex = vin_Vout vin\<rparr>),
       ReqSearchBalance X,
       ReqUpdateBalance j (float64 u (Amount b - Value rec))]"
    using assms(3,4,5)
    by (simp add: UpdateBTCBlanceByVout_def FindBalanceWithAddressOrInitWithAmount_def
        UpdateBTCBlance_def UpdateVoutUsedField_def Let_def)
  obtain rs where "requests u' = requests ?u3 @ rs"
    using sync_log(1) [of tx vins "fst ?acc" "snd ?acc" ?u3] run by auto
  then show ?thesis using r3 by simp
qed

text \<open>
  C9: transactions are synced in block order, each completely, its inputs before its
  outputs, before the next one starts. Let a block hold \<open>T1\<close> and later \<open>T2\<close>, and let a
  sync of it complete on a store whose balance searches and inserts work. Let an output
  \<open>out\<close> of \<open>T1\<close> pay address \<open>X\<close> alone, and let an input \<open>vin\<close> of \<open>T2\<close> resolve, when
  it is reached, to an output \<open>rec\<close> that pays \<open>X\<close> alone. Write \<open>w1\<close> for the store when
  \<open>T1\<close> is reached and \<open>u0\<close> for the store when \<open>out\<close> is reached, \<open>w3\<close> for the store when
  \<open>T2\<close> is reached and \<open>u3\<close> for the store when \<open>vin\<close> is reached. Then \<open>T1\<close> is
  processed from \<open>w1\<close> to a state \<open>w2\<close> and only later \<open>T2\<close> from \<open>w3\<close> to a state \<open>w4\<close>,
  and

  \<^item> the log grows from \<open>w1\<close> to \<open>u0\<close> and then by the insert of \<open>out\<close>, the balance
    search for \<open>X\<close> and the credit of \<open>X\<close>: the insert of its balance document with the
    value of \<open>out\<close>, or the update of its amount in \<open>u0\<close> by that value;
  \<^item> all of this is in the log at \<open>w2\<close>, which is a prefix of the log at \<open>w3\<close> and so
    of the log at \<open>u3\<close>, where \<open>X\<close> has a balance document \<open>j\<close>;
  \<^item> from \<open>u3\<close> the log grows by the lookup of \<open>vin\<close>, the spent mark on the output
    found, the balance search for \<open>X\<close> and the debit: the update of document \<open>j\<close> to the
    float64 of its amount in \<open>u3\<close> minus the value of \<open>rec\<close>;
  \<^item> the inserts of the outputs of \<open>T2\<close> that have an address come after that debit.
\<close>

theorem credit_precedes_later_debit:
  assumes run: "sync_txs h (pre @ T1 # mid @ T2 # post) w = Done u wz"
    and healthy: "SearchBalance \<notin> failing w" "IndexBalance \<notin> failing w"
    and payee: "tx_Vout T1 = outs1 @ out # outs2" "vout_Addresses out = [X]"
    and input: "tx_Vin T2 = vins1 @ vin # vins2"
    and reached:
      "w1 = world_of (sync_txs h pre w)"
      "u0 = world_of (sync_vouts T1 outs1 (0, [])
                        (world_of (sync_vins T1 (tx_Vin T1) (0, []) w1)))"
      "w3 = world_of (sync_txs h (pre @ T1 # mid) w)"
      "u3 = world_of (sync_vins T2 vins1 (0, []) w3)"
    and payer:
      "fst (FindVoutByVoutIndexAndBelongTxID (vin_Txid vin) (vin_Vout vin) u3) = Inr (i, rec)"
      "Addresses rec = [X]"
  shows "\<exists>w2 w4 rest j b rest'.
      sync_txs h pre w = Done () w1 \<and> sync_tx h T1 w1 = Done () w2 \<and>
      sync_txs h mid w2 = Done () w3 \<and> sync_tx h T2 w3 = Done () w4 \<and>
      sync_txs h post w4 = Done u wz \<and>
      prefix (requests w1) (requests u0) \<and>
      requests w2 = requests u0 @
        [ReqIndexVout (BTCVoutStream out (tx_Vin T1) (tx_Txid T1)), ReqSearchBalance X,
         credit_request X (vout_Value out) u0] @ rest \<and>
      prefix (requests w2) (requests w3) \<and>
      prefix (requests w3) (requests u3) \<and>
      find (\<lambda>(i, b). Address b = X) (balance_idx u3) = Some (j, b) \<and>
      requests w4 = requests u3 @
        [ReqSearchVoutByIndex (vin_Txid vin) (vin_Vout vin),
         ReqUpdateVoutUsed i (Some \<lparr>used_Txid = tx_Txid T2, used_VinIndex = vin_Vout vin\<rparr>),
         ReqSearchBalance X,
         ReqUpdateBalance j (float64 w (Amount b - Value rec))] @ rest' \<and>
      set (map (\<lambda>vout. ReqIndexVout (BTCVoutStream vout (tx_Vin T2) (tx_Txid T2)))
             (indexed_outputs (tx_Vout T2))) \<subseteq> set rest'"
proof -
  obtain w1' where 1: "sync_txs h pre w = Done () w1'"
    and r1: "sync_txs h (T1 # mid @ T2 # post) w1' = Done u wz"
    using sync_txs_append_Done [OF run] by blast
  have w1: "w1' = w1" using 1 reached(1) by simp
  obtain w2 where 2: "sync_tx h T1 w1 = Done () w2"
    and r2: "sync_txs h (mid @ T2 # post) w2 = Done u wz"
    using sync_txs_Cons_Done [OF r1] w1 by blast
  obtain w3' where 3: "sync_txs h mid w2 = Done () w3'"
    and r3: "sync_txs h (T2 # post) w3' = Done u wz"
    using sync_txs_append_Done [OF r2] by blast
  have "sync_txs h (pre @ T1 # mid) w = Done () w3'"
    using 1 w1 2 3 by (simp add: sync_txs_append)
  then have w3: "w3' = w3" using reached(3) by simp
  obtain w4 where 4: "sync_tx h T2 w3 = Done () w4"
    and 5: "sync_txs h post w4 = Done u wz"
    using sync_txs_Cons_Done [OF r3] w3 by blast
  have f1: "failing w1 = failing w"
    using sync_env(3) [of w h pre] reached(1) by (simp add: same_store_env_def)
  have f3: "failing w3 = failing w" and k3: "float64 w3 = float64 w"
    using sync_env(3) [of w h "pre @ T1 # mid"] reached(3) by (simp_all add: same_store_env_def)

  obtain a1 l1 ua where v1: "sync_vins T1 (tx_Vin T1) (0, []) w1 = Done (a1, l1) ua"
    using 2 by (auto simp: sync_tx_def split: outcome.splits)
  obtain b1 m1 ub where o1: "sync_vouts T1 (tx_Vout T1) (0, []) ua = Done (b1, m1) ub"
    using 2 v1 by (auto simp: sync_tx_def split: outcome.splits)
  let ?r1 = "BTCTxStream (tx_Txid T1) h
              (if is_coinbase (tx_Vin T1) then 0 else a1 - b1) (tx_Time T1) l1 m1"
  have w2: "w2 = es_index_tx ?r1 ub" using 2 v1 o1 by (simp add: sync_tx_def)
  obtain a0 l0 u0' where o0: "sync_vouts T1 outs1 (0, []) ua = Done (a0, l0) u0'"
    and oh: "sync_vouts T1 (out # outs2) (a0, l0) u0' = Done (b1, m1) ub"
    using o1 payee(1) by (auto simp: sync_vouts_append split: outcome.splits)
  have u0: "u0' = u0" using o0 v1 reached(2) by simp
  have fa: "failing ua = failing w1"
    using sync_env(1) [of w1 T1 "tx_Vin T1" 0 "[]"] v1 by (simp add: same_store_env_def)
  have f0: "failing u0 = failing ua"
    using sync_env(2) [of ua T1 outs1 0 "[]"] o0 u0 by (simp add: same_store_env_def)
  obtain rsa where rsa: "requests ua = requests w1 @ rsa"
    using sync_log(1) [of T1 "tx_Vin T1" 0 "[]" w1] v1 by auto
  obtain rs0 where rs0: "requests u0 = requests ua @ rs0"
    using sync_log(3) [of T1 outs1 0 "[]" ua] o0 u0 by auto
  have p0: "prefix (requests w1) (requests u0)" using rsa rs0 by (simp add: prefix_def)
  have s0: "SearchBalance \<notin> failing u0" using f0 fa f1 healthy(1) by simp
  from sync_vouts_credit_head [OF oh [unfolded u0] payee(2) s0]
  obtain rest0 where rest0: "requests ub = requests u0 @
      [ReqIndexVout (BTCVoutStream out (tx_Vin T1) (tx_Txid T1)), ReqSearchBalance X,
       credit_request X (vout_Value out) u0] @ rest0" by blast
  have c: "requests w2 = requests u0 @
      [ReqIndexVout (BTCVoutStream out (tx_Vin T1) (tx_Txid T1)), ReqSearchBalance X,
       credit_request X (vout_Value out) u0] @ (rest0 @ [ReqIndexTx ?r1])"
    by (simp add: w2 rest0)

  have oin: "out \<in> set (tx_Vout T1)" using payee(1) by simp
  have X: "X \<in> set (vout_Addresses out)" using payee(2) by simp
  have b2: "X \<in> set (balance_addresses w2)"
    using healthy f1 by (intro sync_tx_plants [OF _ _ oin X 2]) simp_all
  have "X \<in> set (balance_addresses (world_of (sync_txs h mid w2)))"
    using b2 by (rule closed_sync_txs [OF sync_closed_has_balance, unfolded has_balance_def])
  then have b3: "X \<in> set (balance_addresses w3)" using 3 w3 by simp
  obtain rsm where "requests w3 = requests w2 @ rsm"
    using sync_log(4) [of h mid w2] 3 w3 by auto
  then have p2: "prefix (requests w2) (requests w3)" by (simp add: prefix_def)

  obtain a2 l2 wa where v2: "sync_vins T2 (tx_Vin T2) (0, []) w3 = Done (a2, l2) wa"
    using 4 by (auto simp: sync_tx_def split: outcome.splits)
  obtain b2' m2 wb where o2: "sync_vouts T2 (tx_Vout T2) (0, []) wa = Done (b2', m2) wb"
    using 4 v2 by (auto simp: sync_tx_def split: outcome.splits)
  let ?r2 = "BTCTxStream (tx_Txid T2) h
              (if is_coinbase (tx_Vin T2) then 0 else a2 - b2') (tx_Time T2) l2 m2"
  have w4: "w4 = es_index_tx ?r2 wb" using 4 v2 o2 by (simp add: sync_tx_def)
  obtain a3 l3 u3' where vp: "sync_vins T2 vins1 (0, []) w3 = Done (a3, l3) u3'"
    and vh: "sync_vins T2 (vin # vins2) (a3, l3) u3' = Done (a2, l2) wa"
    using v2 input by (auto simp: sync_vins_append split: outcome.splits)
  have u3: "u3' = u3" using vp reached(4) by simp
  have e3: "same_store_env w3 u3"
    using sync_env(1) [of w3 T2 vins1 0 "[]"] vp u3 by simp
  then have fu: "failing u3 = failing w" and ku: "float64 u3 = float64 w"
    using f3 k3 by (simp_all add: same_store_env_def)
  obtain rs3 where "requests u3 = requests w3 @ rs3"
    using sync_log(1) [of T2 vins1 0 "[]" w3] vp u3 by auto
  then have p3: "prefix (requests w3) (requests u3)" by (simp add: prefix_def)
  have "X \<in> set (balance_addresses (world_of (sync_vins T2 vins1 (0, []) w3)))"
    using b3 by (rule closed_sync_vins [OF sync_closed_has_balance, unfolded has_balance_def])
  then have "X \<in> set (map (\<lambda>(i, b). Address b) (balance_idx u3))"
    using vp u3 by (simp add: balance_addresses_def)
  then obtain j b where jb: "find (\<lambda>(i, b). Address b = X) (balance_idx u3) = Some (j, b)"
    using find_balance_of_address by blast
  have s3: "SearchBalance \<notin> failing u3" using fu healthy(1) by simp
  from sync_vins_debit_log [OF vh [unfolded u3] payer s3 jb]
  obtain rsA where rsA: "requests wa = requests u3 @
      [ReqSearchVoutByIndex (vin_Txid vin) (vin_Vout vin),
       ReqUpdateVoutUsed i (Some \<lparr>used_Txid = tx_Txid T2, used_VinIndex = vin_Vout vin\<rparr>),
       ReqSearchBalance X,
       ReqUpdateBalance j (float64 u3 (Amount b - Value rec))] @ rsA" by blast
  from sync_vouts_index_log [OF o2]
  obtain rsB where rsB: "requests wb = requests wa @ rsB"
    "set (map (\<lambda>vout. ReqIndexVout (BTCVoutStream vout (tx_Vin T2) (tx_Txid T2)))
           (indexed_outputs (tx_Vout T2))) \<subseteq> set rsB" by blast
  let ?rest = "rsA @ rsB @ [ReqIndexTx ?r2]"
  have d: "requests w4 = requests u3 @
      [ReqSearchVoutByIndex (vin_Txid vin) (vin_Vout vin),
       ReqUpdateVoutUsed i (Some \<lparr>used_Txid = tx_Txid T2, used_VinIndex = vin_Vout vin\<rparr>),
       ReqSearchBalance X,
       ReqUpdateBalance j (float64 w (Amount b - Value rec))] @ ?rest"
    by (simp add: w4 rsB(1) rsA ku)
  have sub: "set (map (\<lambda>vout. ReqIndexVout (BTCVoutStream vout (tx_Vin T2) (tx_Txid T2)))
           (indexed_outputs (tx_Vout T2))) \<subseteq> set ?rest"
    using rsB(2) by auto
  have t1: "sync_txs h pre w = Done () w1" using 1 w1 by simp
  have t3: "sync_txs h mid w2 = Done () w3" using 3 w3 by simp
  show ?thesis using t1 2 t3 4 5 p0 c p2 p3 jb d sub by blast
qed

theorem credit_precedes_later_debit_witness:
  "sync_txs ''h2'' ([] @ coinbase_tx # [] @ spend_tx # []) empty_store =
     Done () (world_of (sync_txs ''h2'' [coinbase_tx, spend_tx] empty_store)) \<and>
   SearchBalance \<notin> failing empty_store \<and> IndexBalance \<notin> failing empty_store \<and>
   tx_Vout coinbase_tx = [] @ \<lparr>vout_Value = 50, vout_N = 0, vout_Addresses = [''A'']\<rparr> # [] \<and>
   tx_Vin spend_tx = [] @ \<lparr>vin_Coinbase = [], vin_Txid = ''t1'', vin_Vout = 0\<rparr> # [] \<and>
   fst (FindVoutByVoutIndexAndBelongTxID ''t1'' 0
          (world_of (sync_vins spend_tx [] (0, [])
             (world_of (sync_txs ''h2'' ([] @ coinbase_tx # []) empty_store))))) =
     Inr (0, vout_A) \<and>
   Addresses vout_A = [''A''] \<and>
   (\<exists>w2 w4 rest j b rest'.
      sync_txs ''h2'' [] empty_store = Done () (world_of (sync_txs ''h2'' [] empty_store)) \<and>
      sync_tx ''h2'' coinbase_tx (world_of (sync_txs ''h2'' [] empty_store)) = Done () w2 \<and>
      sync_txs ''h2'' [] w2 =
        Done () (world_of (sync_txs ''h2'' ([] @ coinbase_tx # []) empty_store)) \<and>
      sync_tx ''h2'' spend_tx (world_of (sync_txs ''h2'' ([] @ coinbase_tx # []) empty_store)) =
        Done () w4 \<and>
      sync_txs ''h2'' [] w4 =
        Done () (world_of (sync_txs ''h2'' [coinbase_tx, spend_tx] empty_store)) \<and>
      requests w2 =
        requests (world_of (sync_vouts coinbase_tx [] (0, [])
           (world_of (sync_vins coinbase_tx (tx_Vin coinbase_tx) (0, [])
              (world_of (sync_txs ''h2'' [] empty_store)))))) @
        [ReqIndexVout vout_A, ReqSearchBalance ''A'',
         ReqIndexBalance (Some \<lparr>Address = ''A'', Amount = 50\<rparr>)] @ rest \<and>
      find (\<lambda>(i, b). Address b = ''A'')
        (balance_idx (world_of (sync_vins spend_tx [] (0, [])
           (world_of (sync_txs ''h2'' ([] @ coinbase_tx # []) empty_store))))) = Some (j, b) \<and>
      requests w4 =
        requests (world_of (sync_vins spend_tx [] (0, [])
           (world_of (sync_txs ''h2'' ([] @ coinbase_tx # []) empty_store)))) @
        [ReqSearchVoutByIndex ''t1'' 0,
         ReqUpdateVoutUsed 0 (Some \<lparr>used_Txid = ''t2'', used_VinIndex = 0\<rparr>),
         ReqSearchBalance ''A'',
         ReqUpdateBalance j (float64 empty_store (Amount b - 50))] @ rest' \<and>
      set (map (\<lambda>vout. ReqIndexVout (BTCVoutStream vout (tx_Vin spend_tx) (tx_Txid spend_tx)))
             (indexed_outputs (tx_Vout spend_tx))) \<subseteq> set rest')"
proof -
  let ?out = "\<lparr>vout_Value = 50, vout_N = 0, vout_Addresses = [''A'']\<rparr>"
  let ?vin = "\<lparr>vin_Coinbase = [], vin_Txid = ''t1'', vin_Vout = 0\<rparr>"
  let ?wz = "world_of (sync_txs ''h2'' [coinbase_tx, spend_tx] empty_store)"
  let ?w1 = "world_of (sync_txs ''h2'' [] empty_store)"
  let ?u0 = "world_of (sync_vouts coinbase_tx [] (0, [])
               (world_of (sync_vins coinbase_tx (tx_Vin coinbase_tx) (0, []) ?w1)))"
  let ?w3 = "world_of (sync_txs ''h2'' ([] @ coinbase_tx # []) empty_store)"
  let ?u3 = "world_of (sync_vins spend_tx [] (0, []) ?w3)"
  have run: "sync_txs ''h2'' ([] @ coinbase_tx # [] @ spend_tx # []) empty_store = Done () ?wz"
    by (simp add: model_defs example_defs)
  have h: "SearchBalance \<notin> failing empty_store" "IndexBalance \<notin> failing empty_store"
    by (simp_all add: empty_store_def)
  have o: "tx_Vout coinbase_tx = [] @ ?out # []" "vout_Addresses ?out = [''A'']"
    by (simp_all add: coinbase_tx_def)
  have i: "tx_Vin spend_tx = [] @ ?vin # []" by (simp add: spend_tx_def)
  have p: "fst (FindVoutByVoutIndexAndBelongTxID ''t1'' 0 ?u3) = Inr (0, vout_A)"
    by (simp add: model_defs example_defs)
  have p': "fst (FindVoutByVoutIndexAndBelongTxID (vin_Txid ?vin) (vin_Vout ?vin) ?u3) =
      Inr (0, vout_A)"
    using p by simp
  have a: "Addresses vout_A = [''A'']" by (simp add: vout_A_def)
  have s: "BTCVoutStream ?out (tx_Vin coinbase_tx) (tx_Txid coinbase_tx) = vout_A"
    "Value vout_A = 50" "tx_Txid spend_tx = ''t2''"
    "credit_request ''A'' 50 ?u0 = ReqIndexBalance (Some \<lparr>Address = ''A'', Amount = 50\<rparr>)"
    by (simp_all add: model_defs example_defs credit_request_def)
  from credit_precedes_later_debit [OF run h o i refl refl refl refl p' a]
  obtain w2 w4 rest j b rest' where
    t: "sync_txs ''h2'' [] empty_store = Done () ?w1" "sync_tx ''h2'' coinbase_tx ?w1 = Done () w2"
      "sync_txs ''h2'' [] w2 = Done () ?w3" "sync_tx ''h2'' spend_tx ?w3 = Done () w4"
      "sync_txs ''h2'' [] w4 = Done () ?wz"
      "find (\<lambda>(i, b). Address b = ''A'') (balance_idx ?u3) = Some (j, b)"
      "set (map (\<lambda>vout. ReqIndexVout (BTCVoutStream vout (tx_Vin spend_tx) (tx_Txid spend_tx)))
             (indexed_outputs (tx_Vout spend_tx))) \<subseteq> set rest'"
    and c: "requests w2 = requests ?u0 @
        [ReqIndexVout (BTCVoutStream ?out (tx_Vin coinbase_tx) (tx_Txid coinbase_tx)),
         ReqSearchBalance ''A'', credit_request ''A'' (vout_Value ?out) ?u0] @ rest"
    and d: "requests w4 = requests ?u3 @
        [ReqSearchVoutByIndex (vin_Txid ?vin) (vin_Vout ?vin),
         ReqUpdateVoutUsed 0
           (Some \<lparr>used_Txid = tx_Txid spend_tx, used_VinIndex = vin_Vout ?vin\<rparr>),
         ReqSearchBalance ''A'',
         ReqUpdateBalance j (float64 empty_store (Amount b - Value vout_A))] @ rest'"
    by blast
  have c': "requests w2 = requests ?u0 @
        [ReqIndexVout vout_A, ReqSearchBalance ''A'',
         ReqIndexBalance (Some \<lparr>Address = ''A'', Amount = 50\<rparr>)] @ rest"
    using c by (simp only: s Vout.simps)
  have d': "requests w4 = requests ?u3 @
        [ReqSearchVoutByIndex ''t1'' 0,
         ReqUpdateVoutUsed 0 (Some \<lparr>used_Txid = ''t2'', used_VinIndex = 0\<rparr>),
         ReqSearchBalance ''A'',
         ReqUpdateBalance j (float64 empty_store (Amount b - 50))] @ rest'"
    using d by (simp only: s Vin.simps)
  show ?thesis using run h o(1) i p a t c' d' by blast
qed

text \<open>The log of that run: the credit of A (the insert of its balance document) comes
  before the debit (the update of that document to 0).\<close>

lemma spend_block_log:
  "requests (world_of (BTCSyncTx 1 1 spend_block empty_store)) =
     [ReqSearchVoutByIndex [] 0,
      ReqIndexVout vout_A,
      ReqSearchBalance ''A'',
      ReqIndexBalance (Some \<lparr>Address = ''A'', Amount = 50\<rparr>),
      ReqIndexTx \<lparr>ts_Txid = ''t1'', ts_BlockHash = ''h2'', ts_Fee = 0, ts_Time = 1,
        ts_Vins = [], ts_Vouts = [\<lparr>awv_Address = ''A'', awv_Value = 50\<rparr>]\<rparr>,
      ReqSearchVoutByIndex ''t1'' 0,
      ReqUpdateVoutUsed 0 (Some \<lparr>used_Txid = ''t2'', used_VinIndex = 0\<rparr>),
      ReqSearchBalance ''A'',
      ReqUpdateBalance 1 0,
      ReqIndexVout \<lparr>TxIDBelongTo = ''t2'', Value = 50, Voutindex = 0, Coinbase = False,
        Addresses = [''B''], Used = None\<rparr>,
      ReqSearchBalance ''B'',
      ReqIndexBalance (Some \<lparr>Address = ''B'', Amount = 50\<rparr>),
      ReqIndexTx \<lparr>ts_Txid = ''t2'', ts_BlockHash = ''h2'', ts_Fee = 0, ts_Time = 2,
        ts_Vins = [\<lparr>awv_Address = ''A'', awv_Value = 50\<rparr>],
        ts_Vouts = [\<lparr>awv_Address = ''B'', awv_Value = 50\<rparr>]\<rparr>]"
  by (simp add: model_defs example_defs)

section \<open>Sync followed by rollback\<close>

text \<open>
  C1, as stated, fails. \<open>spend_block\<close> holds a coinbase transaction paying 50 to A and a
  transaction that spends that output, so it depends on no output outside the block.
  Synced on \<open>seeded_store\<close>, where A has a balance of 10, and rolled back at its height,
  it leaves A with -40: the rollback deletes the output of the first transaction and
  debits A before it reaches the input of the second, which it then cannot locate, so the
  debit of the spend is never given back. The balance document created for B stays, with
  amount 0.
\<close>

theorem rollback_after_sync_loses_spend:
  "BTCSyncTx 7 7 spend_block seeded_store =
     Done () (world_of (BTCSyncTx 7 7 spend_block seeded_store)) \<and>
   balance_idx seeded_store = [(1, \<lparr>Address = ''A'', Amount = 10\<rparr>)] \<and>
   balance_idx (snd (RollbackTxVoutBalanceTypeByBlockHeight 7
      (world_of (BTCSyncTx 7 7 spend_block seeded_store)))) =
     [(1, \<lparr>Address = ''A'', Amount = - 40\<rparr>), (5, \<lparr>Address = ''B'', Amount = 0\<rparr>)]"
  by (simp add: model_defs example_defs)

subsection \<open>The balance index under credits and debits\<close>

lemma adjust_ids [simp]: "map fst (adjust a x ds) = map fst ds"
  by (induction a x ds rule: adjust.induct) auto

lemma adjust_has_address [simp]: "has_address c (adjust a x ds) = has_address c ds"
  by (induction a x ds rule: adjust.induct) auto

lemma has_address_append [simp]:
  "has_address a (ds @ es) = (has_address a ds \<or> has_address a es)"
  by (induction a ds rule: has_address.induct) auto

lemma adjust_commute: "adjust a x (adjust b y ds) = adjust b y (adjust a x ds)"
  by (induction b y ds rule: adjust.induct) auto

lemma adjust_inverse: "adjust a (- x) (adjust a x ds) = ds"
  by (induction a x ds rule: adjust.induct) auto

lemma adjust_append_found:
  "has_address a ds \<Longrightarrow> adjust a x (ds @ es) = adjust a x ds @ es"
  by (induction a x ds rule: adjust.induct) auto

lemma adjust_append_new:
  "\<not> has_address a ds \<Longrightarrow> adjust a x (ds @ es) = ds @ adjust a x es"
  by (induction a x ds rule: adjust.induct) auto

lemma debits_adjust: "debits L (adjust a x ds) = adjust a x (debits L ds)"
  by (induction L ds rule: debits.induct) (simp_all add: adjust_commute)

lemma debits_append: "debits (K @ L) ds = debits L (debits K ds)"
  by (induction K ds rule: debits.induct) simp_all

lemma credited_append:
  "credited K ds es \<Longrightarrow> credited L es fs \<Longrightarrow> credited (K @ L) ds fs"
  by (induction rule: credited.induct) (auto intro: credited.intros)

lemma credited_debits:
  "credited L ds ds' \<Longrightarrow>
   \<exists>zs. debits L ds' = ds @ zs \<and> list_all (\<lambda>(i, b). Amount b = 0) zs"
proof (induction rule: credited.induct)
  case (credited_Nil ds)
  show ?case by simp
next
  case (credited_found a ds L v ds')
  then obtain zs where zs: "debits L ds' = adjust a v ds @ zs"
    "list_all (\<lambda>(i, b). Amount b = 0) zs" by blast
  have "debits ((a, v) # L) ds' = adjust a (- v) (adjust a v ds @ zs)"
    by (simp add: debits_adjust zs)
  also have "\<dots> = adjust a (- v) (adjust a v ds) @ zs"
    using credited_found.hyps(1) by (simp add: adjust_append_found)
  also have "\<dots> = ds @ zs" by (simp add: adjust_inverse)
  finally show ?case using zs(2) by blast
next
  case (credited_new a ds L i v ds')
  then obtain zs where zs: "debits L ds' = (ds @ [(i, \<lparr>Address = a, Amount = v\<rparr>)]) @ zs"
    "list_all (\<lambda>(i, b). Amount b = 0) zs" by blast
  have "debits ((a, v) # L) ds' = adjust a (- v) (ds @ (i, \<lparr>Address = a, Amount = v\<rparr>) # zs)"
    by (simp add: debits_adjust zs)
  also have "\<dots> = ds @ (i, \<lparr>Address = a, Amount = 0\<rparr>) # zs"
    using credited_new.hyps(1) by (simp add: adjust_append_new)
  finally show ?case using zs(2) by auto
qed

lemma amount_at_has_address: "(amount_at a ds = None) = (\<not> has_address a ds)"
  by (induction a ds rule: has_address.induct) auto

lemma amount_at_adjust:
  "amount_at c (adjust a x ds) =
     (if c = a then map_option (\<lambda>y. y + x) (amount_at a ds) else amount_at c ds)"
  by (induction a x ds rule: adjust.induct) auto

lemma amount_at_append:
  "amount_at c (ds @ es) = (case amount_at c ds of None \<Rightarrow> amount_at c es | Some y \<Rightarrow> Some y)"
  by (induction c ds rule: amount_at.induct) auto

lemma ledger_credit_found:
  assumes "has_address a ds"
  shows "ledger_of (adjust a v ds) = credit_ledger a v (ledger_of ds)"
proof (rule ext)
  fix c
  obtain y where y: "amount_at a ds = Some y"
    using assms amount_at_has_address [of a ds] by (cases "amount_at a ds") auto
  show "ledger_of (adjust a v ds) c = credit_ledger a v (ledger_of ds) c"
    by (simp add: ledger_of_def credit_ledger_def amount_at_adjust y)
qed

lemma ledger_credit_new:
  assumes "\<not> has_address a ds"
  shows "ledger_of (ds @ [(i, \<lparr>Address = a, Amount = v\<rparr>)]) =
     credit_ledger a v (ledger_of ds)"
proof (rule ext)
  fix c
  have n: "amount_at a ds = None" using assms by (simp add: amount_at_has_address)
  show "ledger_of (ds @ [(i, \<lparr>Address = a, Amount = v\<rparr>)]) c =
      credit_ledger a v (ledger_of ds) c"
    using n by (cases "amount_at c ds") (auto simp: ledger_of_def credit_ledger_def amount_at_append)
qed

lemma ledger_debit: "ledger_of (adjust a (- v) ds) = debit_ledger a v (ledger_of ds)"
proof (rule ext)
  fix c
  show "ledger_of (adjust a (- v) ds) c = debit_ledger a v (ledger_of ds) c"
    by (cases "amount_at a ds") (auto simp: ledger_of_def debit_ledger_def amount_at_adjust)
qed

lemma ledger_credited:
  "credited L ds ds' \<Longrightarrow> ledger_of ds' = credit_all L (ledger_of ds)"
  by (induction rule: credited.induct) (simp_all add: ledger_credit_found ledger_credit_new)

lemma ledger_debits: "ledger_of (debits L ds) = debit_all L (ledger_of ds)"
  by (induction L ds rule: debits.induct) (simp_all add: ledger_debit)

lemma credit_all_append: "credit_all (K @ L) m = credit_all L (credit_all K m)"
  by (induction K m rule: credit_all.induct) simp_all

lemma debit_all_append: "debit_all (K @ L) m = debit_all L (debit_all K m)"
  by (induction K m rule: debit_all.induct) simp_all

lemma exact_credits_append:
  "exact_credits f (K @ L) m = (exact_credits f K m \<and> exact_credits f L (credit_all K m))"
  by (induction f K m rule: exact_credits.induct) auto

lemma exact_debits_append:
  "exact_debits f (K @ L) m = (exact_debits f K m \<and> exact_debits f L (debit_all K m))"
  by (induction f K m rule: exact_debits.induct) auto

subsection \<open>Lookups in the vout index\<close>

lemma has_txid_append [simp]: "has_txid t (ds @ es) = (has_txid t ds \<or> has_txid t es)"
  by (induction t ds rule: has_txid.induct) auto

lemma find_by_index_no_txid:
  "\<not> has_txid t ds \<Longrightarrow>
   find (\<lambda>(i, v). TxIDBelongTo v = t \<and> Voutindex v = n) ds = None"
  by (induction t ds rule: has_txid.induct) auto

lemma find_by_used_no_txid:
  "\<not> has_txid t ds \<Longrightarrow>
   find (\<lambda>(i, v). TxIDBelongTo v = t \<and> used_matches s n (Used v)) ds = None"
  by (induction t ds rule: has_txid.induct) auto

lemma find_by_index_no_index:
  "\<not> has_index n ds \<Longrightarrow>
   find (\<lambda>(i, v). TxIDBelongTo v = t \<and> Voutindex v = n) ds = None"
  by (induction n ds rule: has_index.induct) auto

lemma find_balance_has_address:
  "(find (\<lambda>(i, b). Address b = a) ds = None) = (\<not> has_address a ds)"
  by (induction a ds rule: has_address.induct) auto

lemma adjust_no_address: "\<not> has_address a ds \<Longrightarrow> adjust a x ds = ds"
  by (induction a x ds rule: adjust.induct) auto

lemma find_balance_in_ids:
  "find (\<lambda>(i, b). Address b = a) (ds :: balance_index) = Some (i, b) \<Longrightarrow>
   i \<in> set (map fst ds)"
  by (induction a ds rule: has_address.induct) (auto split: if_splits)

lemma find_balance_has_id:
  "find (\<lambda>(i, b). Address b = a) (ds :: balance_index) = Some (i, b) \<Longrightarrow> has_id i ds"
  by (induction a ds rule: has_address.induct) (auto split: if_splits)

lemma find_amount_at:
  "find (\<lambda>(i, b). Address b = a) ds = Some (i, b) \<Longrightarrow> amount_at a ds = Some (Amount b)"
  by (induction a ds rule: has_address.induct) (auto split: if_splits)

lemma update_is_adjust:
  "find (\<lambda>(i, b). Address b = a) ds = Some (i, b) \<Longrightarrow> distinct (map fst ds) \<Longrightarrow>
   update_doc i (\<lambda>d. d\<lparr>Amount := Amount b + x\<rparr>) ds = adjust a x ds"
proof (induction a ds rule: has_address.induct)
  case (1 a)
  then show ?case by simp
next
  case (2 a j d ds)
  show ?case
  proof (cases "Address d = a")
    case True
    then show ?thesis using 2 by simp
  next
    case False
    then have f: "find (\<lambda>(i, b). Address b = a) ds = Some (i, b)" using 2(2) by simp
    have "i \<in> set (map fst ds)" using find_balance_in_ids [OF f] .
    then have "j \<noteq> i" using 2(3) by auto
    then show ?thesis using False 2 f by simp
  qed
qed

lemma delete_doc_middle:
  "distinct (map fst (xs @ (i, d) # ys)) \<Longrightarrow> delete_doc i (xs @ (i, d) # ys) = xs @ ys"
proof -
  assume d: "distinct (map fst (xs @ (i, d) # ys))"
  have "filter (\<lambda>(j, d). j \<noteq> i) xs = xs"
    using d by (intro filter_True) (auto simp: image_iff)
  moreover have "filter (\<lambda>(j, d). j \<noteq> i) ys = ys"
    using d by (intro filter_True) (auto simp: image_iff)
  ultimately show ?thesis by (simp add: delete_doc_def)
qed

lemma balance_closed_same_but_balance: "balance_closed same_but_balance"
  by (simp add: balance_closed_def same_but_balance_def)

lemma debit_loop:
  "SearchBalance \<notin> failing u \<Longrightarrow> UpdateBalance \<notin> failing u \<Longrightarrow>
   distinct (map fst (balance_idx u)) \<Longrightarrow>
   exact_debits (float64 u) (map (\<lambda>a. (a, v)) as) (ledger_of (balance_idx u)) \<Longrightarrow>
   balance_idx (snd (UpdateBTCBlanceByVout_loop as v ''sub'' u)) =
     debits (map (\<lambda>a. (a, v)) as) (balance_idx u)"
proof (induction as arbitrary: u)
  case Nil
  show ?case by simp
next
  case (Cons a as)
  let ?u1 = "send_request (ReqSearchBalance a) u"
  have rest: "exact_debits (float64 u) (map (\<lambda>a. (a, v)) as)
      (ledger_of (adjust a (- v) (balance_idx u)))"
    using Cons.prems(4) by (simp add: ledger_debit)
  show ?case
  proof (cases "find (\<lambda>(i, b). Address b = a) (balance_idx u)")
    case None
    then have eq: "UpdateBTCBlanceByVout_loop (a # as) v ''sub'' u =
        UpdateBTCBlanceByVout_loop as v ''sub'' ?u1"
      using Cons.prems(1) by (simp add: FindBalanceWithAddressOrInitWithAmount_def)
    have "adjust a (- v) (balance_idx u) = balance_idx u"
      using None by (simp add: adjust_no_address find_balance_has_address)
    then show ?thesis unfolding eq using Cons.prems(1,2,3) rest by (simp add: Cons.IH)
  next
    case (Some hit)
    obtain i b where hit: "hit = (i, b)" by (cases hit)
    let ?u2 = "snd (UpdateBTCBlance ''sub'' i b v ?u1)"
    have eq: "UpdateBTCBlanceByVout_loop (a # as) v ''sub'' u =
        UpdateBTCBlanceByVout_loop as v ''sub'' ?u2"
      using Some hit Cons.prems(1)
      by (simp add: FindBalanceWithAddressOrInitWithAmount_def case_prod_beta)
    have "amount_at a (balance_idx u) = Some (Amount b)"
      using Some hit by (simp add: find_amount_at)
    then have ex: "float64 u (Amount b - v) = Amount b - v"
      using Cons.prems(4) by (simp add: ledger_of_def)
    have id: "has_id i (balance_idx u)" using Some hit by (simp add: find_balance_has_id)
    have b2: "balance_idx ?u2 = adjust a (- v) (balance_idx u)"
      using Some hit Cons.prems(2,3) ex id update_is_adjust [of a "balance_idx u" i b "- v"]
      by (simp add: UpdateBTCBlance_def es_update_balance_def Let_def)
    have "distinct (map fst (balance_idx ?u2))" using Cons.prems(3) by (simp add: b2)
    then show ?thesis unfolding eq using Cons.prems(1,2) rest by (simp add: Cons.IH b2)
  qed
qed

lemma debits_ids [simp]: "map fst (debits L ds) = map fst ds"
  by (induction L ds rule: debits.induct) simp_all

lemma has_index_new_vouts:
  "map snd C = new_vouts tx outs \<Longrightarrow> has_index n C \<Longrightarrow> n \<in> set (map vout_N outs)"
proof (induction outs arbitrary: C)
  case Nil
  then show ?case by (simp add: new_vouts_def)
next
  case (Cons x outs)
  show ?case
  proof (cases "vout_Addresses x = []")
    case True
    then have "map snd C = new_vouts tx outs" using Cons.prems(1) by (simp add: new_vouts_def)
    from Cons.IH [OF this Cons.prems(2)] show ?thesis by simp
  next
    case False
    then obtain c C' where C: "C = c # C'" and c: "snd c = BTCVoutStream x (tx_Vin tx) (tx_Txid tx)"
      and C': "map snd C' = new_vouts tx outs"
      using Cons.prems(1) by (auto simp: new_vouts_def)
    obtain i r where ir: "c = (i, r)" by (cases c)
    show ?thesis
    proof (cases "Voutindex r = n")
      case True
      then show ?thesis using c ir by (simp add: BTCVoutStream_def)
    next
      case False
      then have "has_index n C'" using Cons.prems(2) C ir by simp
      from Cons.IH [OF C' this] show ?thesis by simp
    qed
  qed
qed

lemma has_txid_streams:
  "map snd C = map (\<lambda>out. BTCVoutStream out vins txid) ys \<Longrightarrow> has_txid t C \<Longrightarrow> t = txid"
proof (induction C arbitrary: ys)
  case Nil
  then show ?case by simp
next
  case (Cons c C)
  obtain i r where ir: "c = (i, r)" by (cases c)
  from Cons.prems(1) obtain y ys' where ys: "ys = y # ys'"
    and r: "r = BTCVoutStream y vins txid"
    and C: "map snd C = map (\<lambda>out. BTCVoutStream out vins txid) ys'"
    by (auto simp: ir map_eq_Cons_conv)
  show ?case
  proof (cases "TxIDBelongTo r = t")
    case True
    then show ?thesis by (simp add: r BTCVoutStream_def)
  next
    case False
    then have "has_txid t C" using Cons.prems(2) ir by simp
    from Cons.IH [OF C this] show ?thesis .
  qed
qed

lemma has_txid_new_vouts:
  "map snd C = new_vouts tx outs \<Longrightarrow> has_txid t C \<Longrightarrow> t = tx_Txid tx"
  unfolding new_vouts_def by (rule has_txid_streams)

lemma find_append:
  "find P (xs @ ys) = (case find P xs of None \<Rightarrow> find P ys | Some x \<Rightarrow> Some x)"
  by (induction xs) auto

subsection \<open>What a rollback undoes\<close>

lemma UpdateBTCBlanceByVout_frame:
  "same_but_balance u (snd (UpdateBTCBlanceByVout vo ot u))"
  by (rule closed_UpdateBTCBlanceByVout [OF balance_closed_same_but_balance])
     (simp add: same_but_balance_def)

lemma rollback_vouts_shape:
  assumes "failing u = {}"
    and "vout_idx u = V0 @ C @ R"
    and "map snd C = new_vouts tx outs"
    and "distinct (map vout_N outs)"
    and "\<not> has_txid (tx_Txid tx) V0" and "\<not> has_txid (tx_Txid tx) R"
    and "distinct (map fst (V0 @ C @ R))"
    and "distinct (map fst (balance_idx u))"
    and "exact_debits (float64 u) (credits_of (map snd C)) (ledger_of (balance_idx u))"
  shows "vout_idx (rollback_vouts tx outs u) = V0 @ R \<and>
         balance_idx (rollback_vouts tx outs u) = debits (credits_of (map snd C)) (balance_idx u) \<and>
         failing (rollback_vouts tx outs u) = {} \<and>
         block_idx (rollback_vouts tx outs u) = block_idx u \<and>
         float64 (rollback_vouts tx outs u) = float64 u"
  using assms
proof (induction outs arbitrary: u C)
  case Nil
  then show ?case by (simp add: new_vouts_def credits_of_def)
next
  case (Cons x outs)
  let ?u1 = "send_request (ReqSearchVoutByIndex (tx_Txid tx) (vout_N x)) u"
  let ?q = "\<lambda>(i, v). TxIDBelongTo v = tx_Txid tx \<and> Voutindex v = vout_N x"
  have fV: "find ?q V0 = None" using Cons.prems(5) by (simp add: find_by_index_no_txid)
  have fR: "find ?q R = None" using Cons.prems(6) by (simp add: find_by_index_no_txid)
  show ?case
  proof (cases "vout_Addresses x = []")
    case True
    then have C: "map snd C = new_vouts tx outs" using Cons.prems(3) by (simp add: new_vouts_def)
    have "vout_N x \<notin> set (map vout_N outs)" using Cons.prems(4) by simp
    then have "\<not> has_index (vout_N x) C" using has_index_new_vouts [OF C] by blast
    then have fC: "find ?q C = None" by (simp add: find_by_index_no_index)
    have eq: "rollback_vouts tx (x # outs) u = rollback_vouts tx outs ?u1"
      using Cons.prems(1,2) fV fC fR
      by (simp add: FindVoutByVoutIndexAndBelongTxID_def find_append)
    show ?thesis unfolding eq
      using Cons.IH [of ?u1 C] Cons.prems C by simp
  next
    case False
    then obtain c C' where C: "C = c # C'"
      and c: "snd c = BTCVoutStream x (tx_Vin tx) (tx_Txid tx)"
      and C': "map snd C' = new_vouts tx outs"
      using Cons.prems(3) by (auto simp: new_vouts_def)
    obtain i r where ir: "c = (i, r)" by (cases c)
    have r: "r = BTCVoutStream x (tx_Vin tx) (tx_Txid tx)" using c ir by simp
    have hit: "find ?q (vout_idx u) = Some (i, r)"
      using Cons.prems(2) fV by (simp add: find_append C ir r BTCVoutStream_def)
    let ?u2 = "es_delete_vout i ?u1"
    let ?u3 = "snd (UpdateBTCBlanceByVout r ''sub'' ?u2)"
    have eq: "rollback_vouts tx (x # outs) u = rollback_vouts tx outs ?u3"
      using Cons.prems(1) hit by (simp add: FindVoutByVoutIndexAndBelongTxID_def)
    have v2: "vout_idx ?u2 = V0 @ C' @ R"
      using Cons.prems(1,2,7) delete_doc_middle [of V0 i r "C' @ R"]
      by (simp add: es_delete_vout_def Let_def C ir)
    have fr: "same_but_balance ?u2 ?u3" by (rule UpdateBTCBlanceByVout_frame)
    have v3: "vout_idx ?u3 = V0 @ C' @ R" using fr v2 by (simp add: same_but_balance_def)
    have f3: "failing ?u3 = {}" using fr Cons.prems(1) by (simp add: same_but_balance_def)
    have k3: "block_idx ?u3 = block_idx u" using fr by (simp add: same_but_balance_def)
    have r3: "float64 ?u3 = float64 u" using fr by (simp add: same_but_balance_def)
    have ex: "exact_debits (float64 u) (map (\<lambda>a. (a, Value r)) (Addresses r))
          (ledger_of (balance_idx u))"
      and ex': "exact_debits (float64 u) (credits_of (map snd C'))
          (debit_all (map (\<lambda>a. (a, Value r)) (Addresses r)) (ledger_of (balance_idx u)))"
      using Cons.prems(9) by (simp_all add: C ir credits_of_def exact_debits_append)
    have b3: "balance_idx ?u3 =
        debits (map (\<lambda>a. (a, Value r)) (Addresses r)) (balance_idx u)"
      using Cons.prems(1,8) ex debit_loop [of ?u2 "Value r" "Addresses r"]
      by (simp add: UpdateBTCBlanceByVout_def)
    have e3: "exact_debits (float64 ?u3) (credits_of (map snd C')) (ledger_of (balance_idx ?u3))"
      using ex' by (simp only: r3 b3 ledger_debits)
    have d3: "distinct (map fst (balance_idx ?u3))" using Cons.prems(8) by (simp add: b3)
    have d7: "distinct (map fst (V0 @ C' @ R))" using Cons.prems(7) by (simp add: C)
    have d4: "distinct (map vout_N outs)" using Cons.prems(4) by simp
    from Cons.IH [OF f3 v3 C' d4 Cons.prems(5,6) d7 d3 e3]
    show ?thesis unfolding eq
      by (simp add: b3 k3 r3 C ir credits_of_def debits_append)
  qed
qed


lemma rollback_vins_noop:
  "\<forall>vin\<in>set vins. \<not> has_txid (vin_Txid vin) (vout_idx u) \<Longrightarrow>
   vout_idx (rollback_vins tx vins u) = vout_idx u \<and>
   balance_idx (rollback_vins tx vins u) = balance_idx u \<and>
   failing (rollback_vins tx vins u) = failing u \<and>
   block_idx (rollback_vins tx vins u) = block_idx u \<and>
   float64 (rollback_vins tx vins u) = float64 u"
proof (induction vins arbitrary: u)
  case Nil
  show ?case by simp
next
  case (Cons vin vins)
  let ?u1 = "send_request (ReqSearchVoutByUsed (vin_Txid vin) (tx_Txid tx) (vin_Vout vin)) u"
  have rest: "\<forall>vin\<in>set vins. \<not> has_txid (vin_Txid vin) (vout_idx u)"
    using Cons.prems by simp
  show ?case
  proof (cases "is_coinbase (tx_Vin tx)")
    case True
    then show ?thesis using Cons.IH [OF rest] by simp
  next
    case False
    have "\<not> has_txid (vin_Txid vin) (vout_idx u)" using Cons.prems by simp
    then have eq: "rollback_vins tx (vin # vins) u = rollback_vins tx vins ?u1"
      using False by (simp add: FindVoutByUsedFieldAndBelongTxID_def find_by_used_no_txid)
    show ?thesis unfolding eq using Cons.IH [of ?u1] rest by simp
  qed
qed

lemma has_txid_block_new_vouts:
  "map snd C = block_new_vouts txs \<Longrightarrow> has_txid t C \<Longrightarrow> t \<in> set (map tx_Txid txs)"
proof (induction txs arbitrary: C)
  case Nil
  then show ?case by (simp add: block_new_vouts_def)
next
  case (Cons tx txs)
  from Cons.prems(1) obtain Ct R where C: "C = Ct @ R"
    and Ct: "map snd Ct = new_vouts tx (tx_Vout tx)"
    and R: "map snd R = block_new_vouts txs"
    by (auto simp: block_new_vouts_def map_eq_append_conv)
  show ?case
  proof (cases "has_txid t Ct")
    case True
    then show ?thesis using has_txid_new_vouts [OF Ct] by simp
  next
    case False
    then have "has_txid t R" using Cons.prems(2) C by simp
    from Cons.IH [OF R this] show ?thesis by simp
  qed
qed

lemma credits_of_append: "credits_of (xs @ ys) = credits_of xs @ credits_of ys"
  by (simp add: credits_of_def)

lemma rollback_txs_shape:
  assumes "failing u = {}"
    and "vout_idx u = V0 @ C"
    and "map snd C = block_new_vouts txs"
    and "distinct (map tx_Txid txs)"
    and "\<forall>tx\<in>set txs. distinct (map vout_N (tx_Vout tx))"
    and "\<forall>tx\<in>set txs. \<not> has_txid (tx_Txid tx) V0 \<and> tx_Txid tx \<in> T"
    and "\<forall>tx\<in>set txs. \<forall>vin\<in>set (tx_Vin tx). \<not> has_txid (vin_Txid vin) V0 \<and> vin_Txid vin \<notin> T"
    and "distinct (map fst (V0 @ C))"
    and "distinct (map fst (balance_idx u))"
    and "exact_debits (float64 u) (credits_of (block_new_vouts txs)) (ledger_of (balance_idx u))"
  shows "vout_idx (rollback_txs txs u) = V0 \<and>
         balance_idx (rollback_txs txs u) =
           debits (credits_of (block_new_vouts txs)) (balance_idx u)"
  using assms
proof (induction txs arbitrary: u C)
  case Nil
  then show ?case by (simp add: block_new_vouts_def credits_of_def)
next
  case (Cons tx txs)
  from Cons.prems(3) obtain Ct R where C: "C = Ct @ R"
    and Ct: "map snd Ct = new_vouts tx (tx_Vout tx)"
    and R: "map snd R = block_new_vouts txs"
    by (auto simp: block_new_vouts_def map_eq_append_conv)
  let ?u1 = "rollback_vins tx (tx_Vin tx) u"
  let ?u2 = "rollback_vouts tx (tx_Vout tx) ?u1"
  have inT: "\<And>t. has_txid t C \<Longrightarrow> t \<in> T"
    using has_txid_block_new_vouts [OF Cons.prems(3)] Cons.prems(6) by auto
  have vins: "\<forall>vin\<in>set (tx_Vin tx). \<not> has_txid (vin_Txid vin) (vout_idx u)"
    using Cons.prems(2,7) inT by auto
  note n = rollback_vins_noop [OF vins, of tx]
  have f1: "failing ?u1 = {}" using n Cons.prems(1) by simp
  have v1: "vout_idx ?u1 = V0 @ Ct @ R" using n Cons.prems(2) C by simp
  have b1: "balance_idx ?u1 = balance_idx u" using n by simp
  have r1: "float64 ?u1 = float64 u" using n by simp
  have bn: "block_new_vouts (tx # txs) = new_vouts tx (tx_Vout tx) @ block_new_vouts txs"
    by (simp add: block_new_vouts_def)
  have ex: "exact_debits (float64 ?u1) (credits_of (map snd Ct)) (ledger_of (balance_idx ?u1))"
    and ex': "exact_debits (float64 u) (credits_of (block_new_vouts txs))
          (debit_all (credits_of (map snd Ct)) (ledger_of (balance_idx u)))"
    using Cons.prems(10)
    by (simp_all add: bn Ct r1 b1 credits_of_append exact_debits_append)
  have noR: "\<not> has_txid (tx_Txid tx) R"
    using has_txid_block_new_vouts [OF R, of "tx_Txid tx"] Cons.prems(4) by auto
  have noV: "\<not> has_txid (tx_Txid tx) V0" using Cons.prems(6) by simp
  have dN: "distinct (map vout_N (tx_Vout tx))" using Cons.prems(5) by simp
  have dI: "distinct (map fst (V0 @ Ct @ R))" using Cons.prems(8) C by simp
  have dB: "distinct (map fst (balance_idx ?u1))" using Cons.prems(9) b1 by simp
  note s = rollback_vouts_shape [OF f1 v1 Ct dN noV noR dI dB ex]
  have f2: "failing ?u2 = {}" and v2: "vout_idx ?u2 = V0 @ R"
    and b2: "balance_idx ?u2 = debits (credits_of (map snd Ct)) (balance_idx u)"
    and r2: "float64 ?u2 = float64 u"
    using s b1 r1 by simp_all
  have e2: "exact_debits (float64 ?u2) (credits_of (block_new_vouts txs))
      (ledger_of (balance_idx ?u2))"
    using ex' by (simp only: r2 b2 ledger_debits)
  have d2: "distinct (map fst (balance_idx ?u2))" using Cons.prems(9) by (simp add: b2)
  have dR: "distinct (map fst (V0 @ R))" using Cons.prems(8) C by auto
  have "vout_idx (rollback_txs txs ?u2) = V0 \<and>
         balance_idx (rollback_txs txs ?u2) =
           debits (credits_of (block_new_vouts txs)) (balance_idx ?u2)"
    using Cons.prems(4,5,6,7) by (intro Cons.IH [OF f2 v2 R _ _ _ _ dR d2 e2]) simp_all
  then show ?case
    by (simp add: b2 Ct block_new_vouts_def credits_of_append debits_append)
qed


subsection \<open>What a sync does\<close>

lemma list_all_less_Suc:
  "list_all (\<lambda>(i, d). i < n) ds \<Longrightarrow> list_all (\<lambda>(i, d). i < Suc n) ds"
  by (induction ds) auto

lemma list_all_less_fresh:
  "list_all (\<lambda>(i, d). i < (n :: nat)) ds \<Longrightarrow> n \<notin> fst ` set ds"
  by (induction ds) auto

lemma adjust_ids_below [simp]:
  "list_all (\<lambda>(i, d). i < n) (adjust a x ds) = list_all (\<lambda>(i, d). i < n) ds"
  by (induction a x ds rule: adjust.induct) auto

lemma sync_vins_noop:
  "\<forall>vin\<in>set vins. \<not> has_txid (vin_Txid vin) (vout_idx u) \<Longrightarrow>
   \<exists>u'. sync_vins tx vins acc u = Done acc u' \<and>
        vout_idx u' = vout_idx u \<and> balance_idx u' = balance_idx u \<and>
        next_id u' = next_id u \<and> failing u' = failing u \<and> block_idx u' = block_idx u \<and>
        float64 u' = float64 u"
proof (induction vins arbitrary: u)
  case Nil
  show ?case by simp
next
  case (Cons vin vins)
  obtain a l where acc: "acc = (a, l)" by (cases acc)
  let ?u1 = "send_request (ReqSearchVoutByIndex (vin_Txid vin) (vin_Vout vin)) u"
  have "\<not> has_txid (vin_Txid vin) (vout_idx u)" using Cons.prems by simp
  then have eq: "sync_vins tx (vin # vins) acc u = sync_vins tx vins acc ?u1"
    by (simp add: acc FindVoutByVoutIndexAndBelongTxID_def find_by_index_no_txid)
  have "\<forall>vin\<in>set vins. \<not> has_txid (vin_Txid vin) (vout_idx ?u1)"
    using Cons.prems by simp
  from Cons.IH [OF this] show ?case unfolding eq by simp
qed

lemma sync_credit_shape:
  "failing u = {} \<Longrightarrow> ids_below u \<Longrightarrow>
   exact_credits (float64 u) (map (\<lambda>a. (a, v)) as) (ledger_of (balance_idx u)) \<Longrightarrow>
   \<exists>u'. sync_credit as v u = Done () u' \<and>
        credited (map (\<lambda>a. (a, v)) as) (balance_idx u) (balance_idx u') \<and>
        vout_idx u' = vout_idx u \<and> failing u' = {} \<and> block_idx u' = block_idx u \<and>
        ids_below u' \<and> float64 u' = float64 u"
proof (induction as arbitrary: u)
  case Nil
  then show ?case by (simp add: credited.intros)
next
  case (Cons a as)
  let ?u1 = "send_request (ReqSearchBalance a) u"
  have rest: "exact_credits (float64 u) (map (\<lambda>a. (a, v)) as)
      (credit_ledger a v (ledger_of (balance_idx u)))"
    using Cons.prems(3) by simp
  show ?case
  proof (cases "find (\<lambda>(i, b). Address b = a) (balance_idx u)")
    case None
    let ?u2 = "es_index_balance (Some \<lparr>Address = a, Amount = v\<rparr>) ?u1"
    have eq: "sync_credit (a # as) v u = sync_credit as v ?u2"
      using None Cons.prems(1) by (simp add: FindBalanceWithAddressOrInitWithAmount_def)
    have b2: "balance_idx ?u2 = balance_idx u @ [(next_id u, \<lparr>Address = a, Amount = v\<rparr>)]"
      and n2: "next_id ?u2 = Suc (next_id u)"
      using Cons.prems(1) by (simp_all add: es_index_balance_def Let_def)
    have i2: "ids_below ?u2"
      using Cons.prems(2)
      by (simp add: ids_below_def b2 n2 list_all_less_Suc list_all_less_fresh)
    have f2: "failing ?u2 = {}" using Cons.prems(1) by simp
    have r2: "float64 ?u2 = float64 u" by simp
    have na: "\<not> has_address a (balance_idx u)"
      using None by (simp add: find_balance_has_address)
    have e2: "exact_credits (float64 ?u2) (map (\<lambda>a. (a, v)) as) (ledger_of (balance_idx ?u2))"
      using rest by (simp only: r2 b2 ledger_credit_new [OF na])
    from Cons.IH [OF f2 i2 e2] obtain u' where u': "sync_credit as v ?u2 = Done () u'"
      "credited (map (\<lambda>a. (a, v)) as) (balance_idx ?u2) (balance_idx u')"
      "vout_idx u' = vout_idx ?u2" "failing u' = {}" "block_idx u' = block_idx ?u2"
      "ids_below u'" "float64 u' = float64 ?u2" by blast
    have "credited (map (\<lambda>a. (a, v)) (a # as)) (balance_idx u) (balance_idx u')"
      using u'(2) na by (simp add: b2 credited_new)
    then show ?thesis unfolding eq using u' by simp
  next
    case (Some hit)
    obtain i b where hit: "hit = (i, b)" by (cases hit)
    let ?u2 = "snd (UpdateBTCBlance ''add'' i b v ?u1)"
    have eq: "sync_credit (a # as) v u = sync_credit as v ?u2"
      using Some hit Cons.prems(1)
      by (simp add: FindBalanceWithAddressOrInitWithAmount_def case_prod_beta)
    have d: "distinct (map fst (balance_idx u))" using Cons.prems(2) by (simp add: ids_below_def)
    have "amount_at a (balance_idx u) = Some (Amount b)"
      using Some hit by (simp add: find_amount_at)
    then have ex: "float64 u (Amount b + v) = Amount b + v"
      using Cons.prems(3) by (simp add: ledger_of_def)
    have id: "has_id i (balance_idx u)" using Some hit by (simp add: find_balance_has_id)
    have b2: "balance_idx ?u2 = adjust a v (balance_idx u)"
      using Some hit Cons.prems(1) d ex id update_is_adjust [of a "balance_idx u" i b v]
      by (simp add: UpdateBTCBlance_def es_update_balance_def Let_def)
    have i2: "ids_below ?u2"
      using Cons.prems(2) by (simp add: ids_below_def b2)
    have f2: "failing ?u2 = {}" using Cons.prems(1) by simp
    have r2: "float64 ?u2 = float64 u" by simp
    have ha: "has_address a (balance_idx u)"
      using Some find_balance_has_address [of a "balance_idx u"] by simp
    have e2: "exact_credits (float64 ?u2) (map (\<lambda>a. (a, v)) as) (ledger_of (balance_idx ?u2))"
      using rest by (simp only: r2 b2 ledger_credit_found [OF ha])
    from Cons.IH [OF f2 i2 e2] obtain u' where u': "sync_credit as v ?u2 = Done () u'"
      "credited (map (\<lambda>a. (a, v)) as) (balance_idx ?u2) (balance_idx u')"
      "vout_idx u' = vout_idx ?u2" "failing u' = {}" "block_idx u' = block_idx ?u2"
      "ids_below u'" "float64 u' = float64 ?u2" by blast
    have "credited (map (\<lambda>a. (a, v)) (a # as)) (balance_idx u) (balance_idx u')"
      using u'(2) ha by (simp add: b2 credited_found)
    then show ?thesis unfolding eq using u' by simp
  qed
qed

lemma sync_vouts_shape:
  "failing u = {} \<Longrightarrow> ids_below u \<Longrightarrow>
   exact_credits (float64 u) (credits_of (new_vouts tx outs)) (ledger_of (balance_idx u)) \<Longrightarrow>
   \<exists>acc' u'. sync_vouts tx outs acc u = Done acc' u' \<and>
        (\<exists>C. vout_idx u' = vout_idx u @ C \<and> map snd C = new_vouts tx outs) \<and>
        credited (credits_of (new_vouts tx outs)) (balance_idx u) (balance_idx u') \<and>
        failing u' = {} \<and> block_idx u' = block_idx u \<and> ids_below u' \<and>
        float64 u' = float64 u"
proof (induction outs arbitrary: acc u)
  case Nil
  then show ?case by (simp add: new_vouts_def credits_of_def credited.intros)
next
  case (Cons x outs)
  obtain a l where acc: "acc = (a, l)" by (cases acc)
  show ?case
  proof (cases "vout_Addresses x")
    case Nil
    then have eq: "sync_vouts tx (x # outs) acc u = sync_vouts tx outs acc u"
      by (simp add: acc BTCVoutAddress_def)
    have nv: "new_vouts tx (x # outs) = new_vouts tx outs" using Nil by (simp add: new_vouts_def)
    show ?thesis unfolding eq using Cons.IH [OF Cons.prems(1,2)] Cons.prems(3)
      unfolding nv .
  next
    case (Cons y ys)
    let ?r = "BTCVoutStream x (tx_Vin tx) (tx_Txid tx)"
    let ?u1 = "es_index_vout ?r u"
    let ?acc = "(a + vout_Value x, l @ [\<lparr>awv_Address = y, awv_Value = vout_Value x\<rparr>])"
    let ?K = "map (\<lambda>a. (a, vout_Value x)) (vout_Addresses x)"
    have v1: "vout_idx ?u1 = vout_idx u @ [(next_id u, ?r)]"
      and n1: "next_id ?u1 = Suc (next_id u)" and b1: "balance_idx ?u1 = balance_idx u"
      and f1: "failing ?u1 = {}" and k1: "block_idx ?u1 = block_idx u"
      and r1: "float64 ?u1 = float64 u"
      using Cons.prems(1) by simp_all
    have i1: "ids_below ?u1"
      using Cons.prems(2)
      by (simp add: ids_below_def v1 n1 b1 list_all_less_Suc list_all_less_fresh)
    have nv: "new_vouts tx (x # outs) = ?r # new_vouts tx outs"
      using Cons by (simp add: new_vouts_def)
    have cr: "credits_of (new_vouts tx (x # outs)) = ?K @ credits_of (new_vouts tx outs)"
      by (simp add: nv credits_of_def BTCVoutStream_def)
    have e1: "exact_credits (float64 ?u1) ?K (ledger_of (balance_idx ?u1))"
      and ex': "exact_credits (float64 u) (credits_of (new_vouts tx outs))
          (credit_all ?K (ledger_of (balance_idx u)))"
      using Cons.prems(3) unfolding cr by (simp_all add: exact_credits_append r1 b1)
    from sync_credit_shape [OF f1 i1 e1]
    obtain u2 where u2: "sync_credit (vout_Addresses x) (vout_Value x) ?u1 = Done () u2"
      "credited ?K (balance_idx ?u1) (balance_idx u2)"
      "vout_idx u2 = vout_idx ?u1" "failing u2 = {}" "block_idx u2 = block_idx ?u1"
      "ids_below u2" "float64 u2 = float64 ?u1" by blast
    have eq: "sync_vouts tx (x # outs) acc u = sync_vouts tx outs ?acc u2"
      using Cons u2(1) by (simp add: acc BTCVoutAddress_def del: sync_credit.simps)
    have l2: "ledger_of (balance_idx u2) = credit_all ?K (ledger_of (balance_idx u))"
      using ledger_credited [OF u2(2)] by (simp only: b1)
    have e2: "exact_credits (float64 u2) (credits_of (new_vouts tx outs))
        (ledger_of (balance_idx u2))"
      using ex' by (simp only: l2 u2(7) r1)
    from Cons.IH [OF u2(4) u2(6) e2, of ?acc]
    obtain acc' u' C where u': "sync_vouts tx outs ?acc u2 = Done acc' u'"
      "vout_idx u' = vout_idx u2 @ C" "map snd C = new_vouts tx outs"
      "credited (credits_of (new_vouts tx outs)) (balance_idx u2) (balance_idx u')"
      "failing u' = {}" "block_idx u' = block_idx u2" "ids_below u'"
      "float64 u' = float64 u2" by blast
    have "credited (credits_of (new_vouts tx (x # outs))) (balance_idx u) (balance_idx u')"
      unfolding cr using u2(2) u'(4) b1 by (auto intro: credited_append)
    moreover have "vout_idx u' = vout_idx u @ ((next_id u, ?r) # C)"
      using u'(2) u2(3) v1 by simp
    moreover have "map snd ((next_id u, ?r) # C) = new_vouts tx (x # outs)"
      using u'(3) nv by simp
    moreover have "float64 u' = float64 u" using u'(8) u2(7) r1 by simp
    ultimately show ?thesis unfolding eq using u'(1,5,6,7) u2(5) k1 by auto
  qed
qed

lemma ids_below_cong:
  "vout_idx u' = vout_idx u \<Longrightarrow> balance_idx u' = balance_idx u \<Longrightarrow>
   next_id u' = next_id u \<Longrightarrow> ids_below u' = ids_below u"
  by (simp add: ids_below_def)

lemma sync_tx_shape:
  assumes "failing u = {}" and "ids_below u"
    and "\<forall>vin\<in>set (tx_Vin tx). \<not> has_txid (vin_Txid vin) (vout_idx u)"
    and "exact_credits (float64 u) (credits_of (new_vouts tx (tx_Vout tx)))
          (ledger_of (balance_idx u))"
  shows "\<exists>u'. sync_tx h tx u = Done () u' \<and>
        (\<exists>C. vout_idx u' = vout_idx u @ C \<and> map snd C = new_vouts tx (tx_Vout tx)) \<and>
        credited (credits_of (new_vouts tx (tx_Vout tx))) (balance_idx u) (balance_idx u') \<and>
        failing u' = {} \<and> block_idx u' = block_idx u \<and> ids_below u' \<and>
        float64 u' = float64 u"
proof -
  from sync_vins_noop [OF assms(3), of tx "(0, [])"]
  obtain u1 where u1: "sync_vins tx (tx_Vin tx) (0, []) u = Done (0, []) u1"
    "vout_idx u1 = vout_idx u" "balance_idx u1 = balance_idx u" "next_id u1 = next_id u"
    "failing u1 = failing u" "block_idx u1 = block_idx u" "float64 u1 = float64 u" by blast
  have f1: "failing u1 = {}" using u1(5) assms(1) by simp
  have i1: "ids_below u1" using ids_below_cong [OF u1(2,3,4)] assms(2) by simp
  have e1: "exact_credits (float64 u1) (credits_of (new_vouts tx (tx_Vout tx)))
      (ledger_of (balance_idx u1))"
    using assms(4) by (simp only: u1(3,7))
  from sync_vouts_shape [OF f1 i1 e1, of "(0, [])"]
  obtain acc' u2 C where u2: "sync_vouts tx (tx_Vout tx) (0, []) u1 = Done acc' u2"
    "vout_idx u2 = vout_idx u1 @ C" "map snd C = new_vouts tx (tx_Vout tx)"
    "credited (credits_of (new_vouts tx (tx_Vout tx))) (balance_idx u1) (balance_idx u2)"
    "failing u2 = {}" "block_idx u2 = block_idx u1" "ids_below u2"
    "float64 u2 = float64 u1" by blast
  obtain b m where acc': "acc' = (b, m)" by (cases acc')
  let ?r = "BTCTxStream (tx_Txid tx) h (if is_coinbase (tx_Vin tx) then 0 else 0 - b)
              (tx_Time tx) [] m"
  have eq: "sync_tx h tx u = Done () (es_index_tx ?r u2)"
    using u1(1) u2(1) by (simp add: sync_tx_def acc')
  have i3: "ids_below (es_index_tx ?r u2)"
    using u2(7) u2(5) by (simp add: ids_below_def list_all_less_Suc)
  show ?thesis unfolding eq using u2 u1 i3 by auto
qed

lemma sync_txs_shape:
  assumes "failing u = {}" and "ids_below u"
    and "\<forall>tx\<in>set txs. tx_Txid tx \<in> T"
    and "\<forall>tx\<in>set txs. \<forall>vin\<in>set (tx_Vin tx).
           \<not> has_txid (vin_Txid vin) (vout_idx u) \<and> vin_Txid vin \<notin> T"
    and "exact_credits (float64 u) (credits_of (block_new_vouts txs)) (ledger_of (balance_idx u))"
  shows "\<exists>u'. sync_txs h txs u = Done () u' \<and>
        (\<exists>C. vout_idx u' = vout_idx u @ C \<and> map snd C = block_new_vouts txs) \<and>
        credited (credits_of (block_new_vouts txs)) (balance_idx u) (balance_idx u') \<and>
        failing u' = {} \<and> block_idx u' = block_idx u \<and> ids_below u' \<and>
        float64 u' = float64 u"
  using assms
proof (induction txs arbitrary: u)
  case Nil
  then show ?case by (simp add: block_new_vouts_def credits_of_def credited.intros)
next
  case (Cons tx txs)
  have vins: "\<forall>vin\<in>set (tx_Vin tx). \<not> has_txid (vin_Txid vin) (vout_idx u)"
    using Cons.prems(4) by simp
  have bn: "block_new_vouts (tx # txs) = new_vouts tx (tx_Vout tx) @ block_new_vouts txs"
    by (simp add: block_new_vouts_def)
  have e0: "exact_credits (float64 u) (credits_of (new_vouts tx (tx_Vout tx)))
        (ledger_of (balance_idx u))"
    and ex': "exact_credits (float64 u) (credits_of (block_new_vouts txs))
        (credit_all (credits_of (new_vouts tx (tx_Vout tx))) (ledger_of (balance_idx u)))"
    using Cons.prems(5) by (simp_all add: bn credits_of_append exact_credits_append)
  from sync_tx_shape [OF Cons.prems(1,2) vins e0, of h]
  obtain u1 C1 where u1: "sync_tx h tx u = Done () u1"
    "vout_idx u1 = vout_idx u @ C1" "map snd C1 = new_vouts tx (tx_Vout tx)"
    "credited (credits_of (new_vouts tx (tx_Vout tx))) (balance_idx u) (balance_idx u1)"
    "failing u1 = {}" "block_idx u1 = block_idx u" "ids_below u1"
    "float64 u1 = float64 u" by blast
  have inT: "\<And>t. has_txid t C1 \<Longrightarrow> t \<in> T"
    using has_txid_new_vouts [OF u1(3)] Cons.prems(3) by auto
  have later: "\<forall>tx\<in>set txs. \<forall>vin\<in>set (tx_Vin tx).
           \<not> has_txid (vin_Txid vin) (vout_idx u1) \<and> vin_Txid vin \<notin> T"
    using Cons.prems(4) inT by (auto simp: u1(2))
  have T: "\<forall>tx\<in>set txs. tx_Txid tx \<in> T" using Cons.prems(3) by simp
  have e1: "exact_credits (float64 u1) (credits_of (block_new_vouts txs))
      (ledger_of (balance_idx u1))"
    using ex' by (simp only: u1(8) ledger_credited [OF u1(4)])
  from Cons.IH [OF u1(5) u1(7) T later e1]
  obtain u' C where u': "sync_txs h txs u1 = Done () u'"
    "vout_idx u' = vout_idx u1 @ C" "map snd C = block_new_vouts txs"
    "credited (credits_of (block_new_vouts txs)) (balance_idx u1) (balance_idx u')"
    "failing u' = {}" "block_idx u' = block_idx u1" "ids_below u'"
    "float64 u' = float64 u1" by blast
  have "credited (credits_of (block_new_vouts (tx # txs))) (balance_idx u) (balance_idx u')"
    unfolding bn credits_of_append using u1(4) u'(4) by (rule credited_append)
  moreover have "vout_idx u' = vout_idx u @ (C1 @ C)" using u'(2) u1(2) by simp
  moreover have "map snd (C1 @ C) = block_new_vouts (tx # txs)"
    using u1(3) u'(3) bn by simp
  moreover have "sync_txs h (tx # txs) u = Done () u'" using u1(1) u'(1) by simp
  moreover have "float64 u' = float64 u" using u'(8) u1(8) by simp
  ultimately show ?case using u'(5,6,7) u1(6) by metis
qed

subsection \<open>The inverse law\<close>

text \<open>
  C1, amended. Let the store be healthy, with distinct ids drawn from its counter, and
  hold block \<open>B\<close> at \<open>height\<close>. Let the transactions of \<open>B\<close> have distinct ids and each
  of them distinct output indices, let the store hold no output of a transaction of \<open>B\<close>,
  and let no input of \<open>B\<close> refer to a transaction that has an output in the store or to a
  transaction of \<open>B\<close> (so no input of \<open>B\<close> resolves while \<open>B\<close> is synced). Let float64
  hold exactly every balance that crediting the outputs of \<open>B\<close> and then debiting them
  computes from the balances of the store. Then the sync of \<open>B\<close> returns, the rollback at
  \<open>height\<close> returns no error, the vout index is exactly as before the sync, and the
  balance index is as before the sync followed by the documents the sync created, each
  with amount 0.
\<close>

theorem rollback_after_sync:
  assumes healthy: "failing w = {}"
    and ids: "ids_below w"
    and block: "map_of (block_idx w) height = Some B"
    and txids: "distinct (map tx_Txid (blk_Tx B))"
    and outs: "\<forall>tx\<in>set (blk_Tx B). distinct (map vout_N (tx_Vout tx))"
    and new: "\<forall>tx\<in>set (blk_Tx B). \<not> has_txid (tx_Txid tx) (vout_idx w)"
    and inputs: "\<forall>tx\<in>set (blk_Tx B). \<forall>vin\<in>set (tx_Vin tx).
        \<not> has_txid (vin_Txid vin) (vout_idx w) \<and> vin_Txid vin \<notin> set (map tx_Txid (blk_Tx B))"
    and exact: "exact_amounts w (credits_of (block_new_vouts (blk_Tx B)))"
  shows "\<exists>w1 w2 zs. BTCSyncTx frm height B w = Done () w1 \<and>
      RollbackTxVoutBalanceTypeByBlockHeight height w1 = (None, w2) \<and>
      vout_idx w2 = vout_idx w \<and>
      balance_idx w2 = balance_idx w @ zs \<and> list_all (\<lambda>(i, b). Amount b = 0) zs"
proof -
  let ?T = "set (map tx_Txid (blk_Tx B))"
  let ?L = "credits_of (block_new_vouts (blk_Tx B))"
  have T: "\<forall>tx\<in>set (blk_Tx B). tx_Txid tx \<in> ?T" by simp
  have ec: "exact_credits (float64 w) ?L (ledger_of (balance_idx w))"
    and ed: "exact_debits (float64 w) ?L (credit_all ?L (ledger_of (balance_idx w)))"
    using exact by (simp_all add: exact_amounts_def)
  from sync_txs_shape [OF healthy ids T inputs ec, of "blk_Hash B"]
  obtain w1 C where w1: "sync_txs (blk_Hash B) (blk_Tx B) w = Done () w1"
    "vout_idx w1 = vout_idx w @ C" "map snd C = block_new_vouts (blk_Tx B)"
    "credited ?L (balance_idx w) (balance_idx w1)"
    "failing w1 = {}" "block_idx w1 = block_idx w" "ids_below w1"
    "float64 w1 = float64 w" by blast
  let ?u = "snd (DeleteTxstreamByBlockHash (blk_Hash B) (send_request (ReqGetBlock height) w1))"
  let ?w2 = "rollback_txs (blk_Tx B) ?u"
  have rb: "RollbackTxVoutBalanceTypeByBlockHeight height w1 = (None, ?w2)"
    using w1(5,6) block
    by (simp add: RollbackTxVoutBalanceTypeByBlockHeight_def FindBTCBlockByHeight_def
        DeleteTxstreamByBlockHash_def Let_def)
  have fu: "failing ?u = {}" using w1(5) by simp
  have vu: "vout_idx ?u = vout_idx w @ C" using w1(2) by simp
  have bu: "balance_idx ?u = balance_idx w1" and ru: "float64 ?u = float64 w" 
    using w1(8) by simp_all
  have dV: "distinct (map fst (vout_idx w @ C))" using w1(7) w1(2) by (simp add: ids_below_def)
  have dB: "distinct (map fst (balance_idx ?u))" using w1(7) by (simp add: ids_below_def)
  have newT: "\<forall>tx\<in>set (blk_Tx B). \<not> has_txid (tx_Txid tx) (vout_idx w) \<and> tx_Txid tx \<in> ?T"
    using new by simp
  have eu: "exact_debits (float64 ?u) ?L (ledger_of (balance_idx ?u))"
    using ed by (simp only: bu ru ledger_credited [OF w1(4)])
  note s = rollback_txs_shape [OF fu vu w1(3) txids outs newT inputs dV dB eu]
  obtain zs where zs: "debits ?L (balance_idx w1) = balance_idx w @ zs"
    "list_all (\<lambda>(i, b). Amount b = 0) zs"
    using credited_debits [OF w1(4)] by blast
  have "vout_idx ?w2 = vout_idx w" using s by simp
  moreover have "balance_idx ?w2 = balance_idx w @ zs" using s zs(1) by (simp only: bu)
  moreover have "BTCSyncTx frm height B w = Done () w1" using w1(1) by (simp add: BTCSyncTx_def)
  ultimately show ?thesis using rb zs(2) by blast
qed

theorem rollback_after_sync_witness:
  "failing seeded_store = {} \<and> ids_below seeded_store \<and>
   map_of (block_idx seeded_store) 8 = Some coinbase_block \<and>
   distinct (map tx_Txid (blk_Tx coinbase_block)) \<and>
   credits_of (block_new_vouts (blk_Tx coinbase_block)) = [(''A'', 50)] \<and>
   float64 seeded_store (10 + 50) = 60 \<and> float64 seeded_store (60 - 50) = 10 \<and>
   (\<exists>w1 w2 zs. BTCSyncTx 8 8 coinbase_block seeded_store = Done () w1 \<and>
      RollbackTxVoutBalanceTypeByBlockHeight 8 w1 = (None, w2) \<and>
      vout_idx w2 = vout_idx seeded_store \<and>
      balance_idx w2 = balance_idx seeded_store @ zs \<and>
      list_all (\<lambda>(i, b). Amount b = 0) zs)"
proof -
  have 1: "failing seeded_store = {}" by (simp add: seeded_store_def)
  have 2: "ids_below seeded_store" by (simp add: ids_below_def seeded_store_def)
  have 3: "map_of (block_idx seeded_store) 8 = Some coinbase_block"
    by (simp add: seeded_store_def)
  have 4: "distinct (map tx_Txid (blk_Tx coinbase_block))"
    by (simp add: coinbase_block_def)
  have 5: "\<forall>tx\<in>set (blk_Tx coinbase_block). distinct (map vout_N (tx_Vout tx))"
    by (simp add: coinbase_block_def coinbase_tx_def)
  have 6: "\<forall>tx\<in>set (blk_Tx coinbase_block). \<not> has_txid (tx_Txid tx) (vout_idx seeded_store)"
    by (simp add: coinbase_block_def coinbase_tx_def seeded_store_def)
  have 7: "\<forall>tx\<in>set (blk_Tx coinbase_block). \<forall>vin\<in>set (tx_Vin tx).
        \<not> has_txid (vin_Txid vin) (vout_idx seeded_store) \<and>
        vin_Txid vin \<notin> set (map tx_Txid (blk_Tx coinbase_block))"
    by (simp add: coinbase_block_def coinbase_tx_def seeded_store_def)
  have 8: "credits_of (block_new_vouts (blk_Tx coinbase_block)) = [(''A'', 50)]"
    by (simp add: credits_of_def block_new_vouts_def new_vouts_def BTCVoutStream_def
        coinbase_block_def coinbase_tx_def)
  have 9: "float64 seeded_store (10 + 50) = 60" "float64 seeded_store (60 - 50) = 10"
    by (simp_all add: seeded_store_def example_float64_def)
  have 10: "exact_amounts seeded_store (credits_of (block_new_vouts (blk_Tx coinbase_block)))"
    unfolding 8
    by (simp add: exact_amounts_def ledger_of_def credit_ledger_def debit_ledger_def
        seeded_store_def example_float64_def)
  from rollback_after_sync [OF 1 2 3 4 5 6 7 10, of 8] 1 2 3 4 8 9 show ?thesis by blast
qed

text \<open>In that run the balance of A is back at 10 and the vout index holds the one
  earlier output again.\<close>

lemma rollback_after_sync_coinbase_block:
  "balance_idx (snd (RollbackTxVoutBalanceTypeByBlockHeight 8
      (world_of (BTCSyncTx 8 8 coinbase_block seeded_store)))) =
     [(1, \<lparr>Address = ''A'', Amount = 10\<rparr>)] \<and>
   vout_idx (snd (RollbackTxVoutBalanceTypeByBlockHeight 8
      (world_of (BTCSyncTx 8 8 coinbase_block seeded_store)))) = vout_idx seeded_store"
  by (simp add: model_defs example_defs)

text \<open>Where float64 does not hold a sum the balances need not come back. With A at
  \<open>2^53\<close> the credit of 1 is stored as \<open>2^53\<close>, since \<open>2^53 + 1\<close> is no float64, and the
  rollback leaves A with \<open>2^53 - 1\<close>.\<close>

lemma rollback_after_sync_rounded:
  "\<not> exact_amounts large_store (credits_of (block_new_vouts (blk_Tx unit_block))) \<and>
   balance_idx (world_of (BTCSyncTx 8 8 unit_block large_store)) =
     [(0, \<lparr>Address = ''A'', Amount = 2 ^ 53\<rparr>)] \<and>
   balance_idx (snd (RollbackTxVoutBalanceTypeByBlockHeight 8
      (world_of (BTCSyncTx 8 8 unit_block large_store)))) =
     [(0, \<lparr>Address = ''A'', Amount = 2 ^ 53 - 1\<rparr>)]"
  by (simp add: model_defs example_defs exact_amounts_def ledger_of_def credit_ledger_def
      credits_of_def block_new_vouts_def new_vouts_def)

section \<open>Balance updates for addresses without a balance document\<close>

lemma UpdateBTCBlance_addresses:
  "balance_addresses (snd (UpdateBTCBlance ot i b v w)) = balance_addresses w"
  by (simp add: UpdateBTCBlance_def Let_def)

lemma UpdateBTCBlanceByVout_loop_addresses:
  "balance_addresses (snd (UpdateBTCBlanceByVout_loop as v ot w)) = balance_addresses w"
proof (induction as arbitrary: w)
  case Nil
  show ?case by simp
next
  case (Cons a as)
  let ?w1 = "send_request (ReqSearchBalance a) w"
  show ?case
  proof (cases "fst (FindBalanceWithAddressOrInitWithAmount a v w)")
    case BalSearchFailed
    then show ?thesis using Cons.IH [of ?w1] by (simp add: case_prod_beta)
  next
    case (BalNotFound d)
    then show ?thesis using Cons.IH [of ?w1] by (simp add: case_prod_beta)
  next
    case (BalFound i b)
    let ?w2 = "snd (UpdateBTCBlance ot i b v ?w1)"
    have w2: "balance_addresses ?w2 = balance_addresses w"
      by (simp add: UpdateBTCBlance_addresses)
    show ?thesis
    proof (cases "fst (UpdateBTCBlance ot i b v ?w1)")
      case None
      then show ?thesis using BalFound w2 Cons.IH [of ?w2] by (simp add: case_prod_beta)
    next
      case (Some e)
      then show ?thesis using BalFound w2 by (simp add: case_prod_beta)
    qed
  qed
qed

text \<open>
  C10: \<open>UpdateBTCBlanceByVout\<close> never creates a balance document: the addresses of the
  balance index are the same after it as before, so an address without a document is
  passed over. With "add" or "sub" it returns no error. When no address of the vout has a
  balance document it leaves the store as it was, having sent only one balance search per
  address: no document is created and no amount is changed.
\<close>

theorem missing_balance_is_noop:
  "balance_addresses (snd (UpdateBTCBlanceByVout vout OperateType w)) = balance_addresses w \<and>
   (OperateType = ''add'' \<or> OperateType = ''sub'' \<longrightarrow>
      fst (UpdateBTCBlanceByVout vout OperateType w) = None) \<and>
   ((\<forall>a\<in>set (Addresses vout). a \<notin> set (balance_addresses w)) \<longrightarrow>
      UpdateBTCBlanceByVout vout OperateType w =
        (None, w\<lparr>requests := requests w @ map ReqSearchBalance (Addresses vout)\<rparr>))"
proof -
  have 1: "balance_addresses (snd (UpdateBTCBlanceByVout vout OperateType w)) = balance_addresses w"
    by (simp add: UpdateBTCBlanceByVout_def UpdateBTCBlanceByVout_loop_addresses)
  have 2: "OperateType = ''add'' \<or> OperateType = ''sub'' \<longrightarrow>
      fst (UpdateBTCBlanceByVout vout OperateType w) = None"
    by (simp add: UpdateBTCBlanceByVout_def UpdateBTCBlanceByVout_loop_ok)
  have 3: "(\<forall>a\<in>set (Addresses vout). a \<notin> set (balance_addresses w)) \<longrightarrow>
      UpdateBTCBlanceByVout vout OperateType w =
        (None, w\<lparr>requests := requests w @ map ReqSearchBalance (Addresses vout)\<rparr>)"
  proof
    assume "\<forall>a\<in>set (Addresses vout). a \<notin> set (balance_addresses w)"
    then have "\<forall>a\<in>set (Addresses vout). a \<notin> Address ` snd ` set (balance_idx w)"
      by (force simp: balance_addresses_def)
    then show "UpdateBTCBlanceByVout vout OperateType w =
        (None, w\<lparr>requests := requests w @ map ReqSearchBalance (Addresses vout)\<rparr>)"
      unfolding UpdateBTCBlanceByVout_def by (rule UpdateBTCBlanceByVout_loop_missing)
  qed
  show ?thesis using 1 2 3 by blast
qed

theorem missing_balance_is_noop_witness:
  "balance_addresses seeded_store = [''A''] \<and>
   balance_addresses (snd (UpdateBTCBlanceByVout two_address_vout ''sub'' seeded_store)) = [''A''] \<and>
   fst (UpdateBTCBlanceByVout two_address_vout ''sub'' seeded_store) = None \<and>
   Addresses vout_A = [''A''] \<and> balance_addresses empty_store = [] \<and>
   UpdateBTCBlanceByVout vout_A ''sub'' empty_store =
     (None, empty_store\<lparr>requests := [ReqSearchBalance ''A'']\<rparr>)"
  using missing_balance_is_noop [of two_address_vout "''sub''" seeded_store]
    missing_balance_is_noop [of vout_A "''sub''" empty_store]
  by (simp add: balance_addresses_def seeded_store_def empty_store_def vout_A_def)

end
